theory Spec2Isabelle
  imports Main "HOL-Library.Word"
begin

section \<open>SLIP framing (lora\_mesh\_tak/slip.py)\<close>

text \<open>
  Python \<open>bytes\<close> are lists of 8-bit words. The four special bytes of slip.py:
\<close>

type_synonym byte = "8 word"

definition SLIP_END :: byte where "SLIP_END = 0xC0"
definition SLIP_ESC :: byte where "SLIP_ESC = 0xDB"
definition SLIP_ESC_END :: byte where "SLIP_ESC_END = 0xDC"
definition SLIP_ESC_ESC :: byte where "SLIP_ESC_ESC = 0xDD"

text \<open>
  The exceptions of the library. Both \<open>ValueError\<close>s of \<open>slip_decode\<close> and the one of
  \<open>send_message\<close> are kept apart by constructor; \<open>MessageTooLong n m\<close> is the
  \<open>ValueError\<close> whose text reads "Message too long (n chars). Max: m ...".
  \<open>TimeoutError\<close> carries the timeout printed in its message.
\<close>

datatype 't error =
    IncompleteEscape
  | InvalidEscape byte
  | MessageTooLong nat nat
  | TimeoutError 't
  | ConnectionError
  | KeyError nat

definition is_ValueError :: "'t error \<Rightarrow> bool" where
  "is_ValueError e =
     (case e of IncompleteEscape \<Rightarrow> True | InvalidEscape _ \<Rightarrow> True
      | MessageTooLong _ _ \<Rightarrow> True | _ \<Rightarrow> False)"

subsection \<open>slip\_encode\<close>

text \<open>
  The \<open>for byte in data\<close> loop of \<open>slip_encode\<close>; the second argument is the
  bytearray \<open>result\<close> built so far.
\<close>

fun encode_loop :: "byte list \<Rightarrow> byte list \<Rightarrow> byte list" where
  "encode_loop [] result = result"
| "encode_loop (b # bs) result =
     (if b = SLIP_END then encode_loop bs (result @ [SLIP_ESC, SLIP_ESC_END])
      else if b = SLIP_ESC then encode_loop bs (result @ [SLIP_ESC, SLIP_ESC_ESC])
      else encode_loop bs (result @ [b]))"

definition slip_encode :: "byte list \<Rightarrow> byte list" where
  "slip_encode data = encode_loop data [SLIP_END] @ [SLIP_END]"

subsection \<open>slip\_decode\<close>

text \<open>
  The \<open>while i < len(data)\<close> loop of \<open>slip_decode\<close>: the first argument is
  \<open>data[i:]\<close>, the second the bytearray \<open>result\<close>. Each \<open>raise ValueError\<close> is a
  branch returning \<open>Inl\<close>.
\<close>

fun decode_loop :: "byte list \<Rightarrow> byte list \<Rightarrow> 't error + byte list" where
  "decode_loop [] result = Inr result"
| "decode_loop (b # rest) result =
     (if b = SLIP_ESC then
        (case rest of
           [] \<Rightarrow> Inl IncompleteEscape
         | next_byte # rest' \<Rightarrow>
             if next_byte = SLIP_ESC_END then decode_loop rest' (result @ [SLIP_END])
             else if next_byte = SLIP_ESC_ESC then decode_loop rest' (result @ [SLIP_ESC])
             else Inl (InvalidEscape next_byte))
      else if b \<noteq> SLIP_END then decode_loop rest (result @ [b])
      else decode_loop rest result)"

definition slip_decode :: "byte list \<Rightarrow> 't error + byte list" where
  "slip_decode data = decode_loop data []"

subsection \<open>SlipReader\<close>

record slip_reader =
  buffer :: "byte list"
  in_packet :: bool
  packets :: "byte list list"

definition SlipReader_init :: slip_reader where
  "SlipReader_init = \<lparr>buffer = [], in_packet = False, packets = []\<rparr>"

text \<open>
  One iteration of the loop of \<open>SlipReader.feed\<close>. The \<open>try\<close>/\<open>except ValueError: pass\<close>
  around \<open>slip_decode\<close> is the case distinction on its result.
\<close>

definition feed_byte :: "byte \<Rightarrow> slip_reader \<Rightarrow> slip_reader" where
  "feed_byte b r =
     (if b = SLIP_END then
        (let r1 = (if in_packet r \<and> buffer r \<noteq> [] then
                     (case (slip_decode (buffer r) :: unit error + byte list) of
                        Inr decoded \<Rightarrow> r\<lparr>packets := packets r @ [decoded]\<rparr>
                      | Inl _ \<Rightarrow> r)
                   else r)
         in r1\<lparr>in_packet := True, buffer := []\<rparr>)
      else if in_packet r then r\<lparr>buffer := buffer r @ [b]\<rparr>
      else r)"

fun feed :: "byte list \<Rightarrow> slip_reader \<Rightarrow> slip_reader" where
  "feed [] r = r"
| "feed (b # bs) r = feed bs (feed_byte b r)"

text \<open>Feeding a list of chunks, one \<open>feed\<close> call per chunk, in order.\<close>

fun feed_chunks :: "byte list list \<Rightarrow> slip_reader \<Rightarrow> slip_reader" where
  "feed_chunks [] r = r"
| "feed_chunks (c # cs) r = feed_chunks cs (feed c r)"

definition get_packet :: "slip_reader \<Rightarrow> byte list option \<times> slip_reader" where
  "get_packet r =
     (case packets r of
        [] \<Rightarrow> (None, r)
      | p # ps \<Rightarrow> (Some p, r\<lparr>packets := ps\<rparr>))"

definition has_packet :: "slip_reader \<Rightarrow> bool" where
  "has_packet r = (length (packets r) > 0)"

definition clear :: "slip_reader \<Rightarrow> slip_reader" where
  "clear r = r\<lparr>buffer := [], packets := [], in_packet := False\<rparr>"

text \<open>
  A malformed escape, in the words of the specification: an escape byte that is the last
  byte of the input or is followed by a byte other than the two escaped-literal codes.
\<close>

definition malformed_escape :: "byte list \<Rightarrow> bool" where
  "malformed_escape data =
     (\<exists>i \<in> {..<length data}. data ! i = SLIP_ESC \<and>
        (Suc i = length data \<or>
         (data ! Suc i \<noteq> SLIP_ESC_END \<and> data ! Suc i \<noteq> SLIP_ESC_ESC)))"

section \<open>The serial client (lora\_mesh\_tak/client.py)\<close>

subsection \<open>Messages\<close>

text \<open>
  Modelled from the spec: the envelope types. The protobuf classes of \<open>serial_pb2\<close>
  (\<open>ToDevice\<close>, \<open>SerialPacket\<close>, \<open>FromDevice\<close>) are generated code that is not among the
  sources; the specification describes an outbound envelope as a packet id with one
  command and an inbound one as a request id with one payload, and the client
  only builds commands, reads \<open>request_id\<close> and asks \<open>WhichOneof("payload")\<close>. A command is
  the \<open>send_message\<close> request with its two fields, or any other request, kept by the name of
  its field. An inbound \<open>FromDevice\<close> carries its \<open>request_id\<close>, the name that
  \<open>WhichOneof("payload")\<close> returns (or \<open>None\<close>) and the content, which stays opaque.
\<close>

datatype to_device =
    SendMessageRequest (destination: string) (message_text: string)
  | OtherRequest string

datatype serial_packet = SerialPacket (packet_id_of: nat) (to_device_of: to_device)

record from_device =
  request_id :: nat
  payload_type :: "string option"
  payload_content :: "byte list"

text \<open>
  What \<open>packet.ParseFromString(data)\<close> followed by \<open>packet.HasField("from_device")\<close> yields:
  an exception, a packet without \<open>from_device\<close>, or the \<open>from_device\<close> message.
\<close>

datatype parsed = ParseError | NoFromDevice | HasFromDevice from_device

text \<open>
  The effects of the calling thread, in the order they happen: \<open>Write framed\<close> is
  \<open>self._serial.write(framed)\<close> with the flush, \<open>Wait t\<close> is \<open>event.wait(t)\<close>, and
  \<open>Sleep ms\<close> is \<open>time.sleep\<close> (\<open>time.sleep(0.3)\<close> is \<open>Sleep 300\<close>).
\<close>

datatype 't io_event = Write "byte list" | Wait 't | Sleep nat

subsection \<open>Client state\<close>

text \<open>
  The fields of \<open>LoRaMeshClient\<close> that the modelled methods read or write. Timeouts are
  values of an arbitrary type \<open>'t\<close>: the client never computes with them. \<open>packet_id\<close> is a
  \<open>nat\<close>: it starts at 0 and is only ever assigned the result of a \<open>%\<close> by a positive
  number. An entry of \<open>response_events\<close> is a \<open>threading.Event\<close>, that is its flag. The
  five callback slots hold a handler or \<open>None\<close>; what a handler does is outside the client,
  so a slot is the flag "a handler is registered", and each invocation is recorded in
  \<open>delivered\<close>.

  Two more fields record the world around the client. \<open>trace\<close> lists the effects of the
  calling thread. \<open>inbox\<close> is the input of the background reader: its head is the list of
  frames that \<open>_read_loop\<close> hands to \<open>_handle_packet\<close> while the next \<open>event.wait\<close> is
  blocked, in order of arrival; with no entry left, nothing arrives.
\<close>

record 't client =
  timeout_default :: 't
  is_connected :: bool
  packet_id :: nat
  pending_responses :: "nat \<rightharpoonup> from_device"
  response_events :: "nat \<rightharpoonup> bool"
  on_message :: bool
  on_gps :: bool
  on_neighbor :: bool
  on_emergency :: bool
  on_log :: bool
  trace :: "'t io_event list"
  delivered :: "(string \<times> from_device) list"
  inbox :: "byte list list list"

definition LoRaMeshClient_init :: "'t \<Rightarrow> 't client" where
  "LoRaMeshClient_init timeout =
     \<lparr>timeout_default = timeout, is_connected = False, packet_id = 0,
      pending_responses = Map.empty, response_events = Map.empty,
      on_message = False, on_gps = False, on_neighbor = False, on_emergency = False,
      on_log = False, trace = [], delivered = [], inbox = []\<rparr>"

subsection \<open>Packet ids and sending\<close>

definition next_packet_id :: "'t client \<Rightarrow> nat \<times> 't client" where
  "next_packet_id c =
     (let p = (packet_id c + 1) mod 0xFFFFFFFF in (p, c\<lparr>packet_id := p\<rparr>))"

text \<open>
  \<open>_send_packet\<close>. The serialisation \<open>packet.SerializeToString()\<close> belongs to protobuf and is
  the parameter \<open>ser\<close>. A write to an open port is taken to succeed.
\<close>

definition send_packet ::
  "(serial_packet \<Rightarrow> byte list) \<Rightarrow> serial_packet \<Rightarrow> 't client \<Rightarrow> 't error + 't client" where
  "send_packet ser packet c =
     (if \<not> is_connected c then Inl ConnectionError
      else (let data = ser packet; framed = slip_encode data
            in Inr (c\<lparr>trace := trace c @ [Write framed]\<rparr>)))"

subsection \<open>The background reader's handlers\<close>

definition invoke :: "string \<Rightarrow> from_device \<Rightarrow> 't client \<Rightarrow> 't client" where
  "invoke kind response c = c\<lparr>delivered := delivered c @ [(kind, response)]\<rparr>"

definition handle_event :: "from_device \<Rightarrow> 't client \<Rightarrow> 't client" where
  "handle_event response c =
     (let pt = payload_type response in
      if pt = Some ''message_received'' \<and> on_message c then invoke ''message_received'' response c
      else if pt = Some ''gps_received'' \<and> on_gps c then invoke ''gps_received'' response c
      else if pt = Some ''neighbor_changed'' \<and> on_neighbor c
        then invoke ''neighbor_changed'' response c
      else if pt = Some ''emergency_received'' \<and> on_emergency c
        then invoke ''emergency_received'' response c
      else if pt = Some ''log'' \<and> on_log c then invoke ''log'' response c
      else c)"

text \<open>
  \<open>_handle_packet\<close>; the protobuf parser is the parameter \<open>parse\<close>. The
  \<open>except Exception: pass\<close> is the \<open>ParseError\<close> branch.
\<close>

definition handle_packet :: "(byte list \<Rightarrow> parsed) \<Rightarrow> byte list \<Rightarrow> 't client \<Rightarrow> 't client" where
  "handle_packet parse data c =
     (case parse data of
        ParseError \<Rightarrow> c
      | NoFromDevice \<Rightarrow> c
      | HasFromDevice response \<Rightarrow>
          (let rid = request_id response in
           if response_events c rid \<noteq> None then
             c\<lparr>pending_responses := (pending_responses c)(rid \<mapsto> response),
               response_events := (response_events c)(rid \<mapsto> True)\<rparr>
           else handle_event response c))"

fun handle_packets :: "(byte list \<Rightarrow> parsed) \<Rightarrow> byte list list \<Rightarrow> 't client \<Rightarrow> 't client" where
  "handle_packets parse [] c = c"
| "handle_packets parse (d # ds) c = handle_packets parse ds (handle_packet parse d c)"

subsection \<open>\_send\_command\<close>

text \<open>
  \<open>event.wait(timeout)\<close> on the event registered under \<open>pid\<close>: the wait is recorded, the
  reader handles the frames of the current \<open>inbox\<close> window, and the wait returns whether
  the event's flag is set by then.
\<close>

definition event_wait ::
  "(byte list \<Rightarrow> parsed) \<Rightarrow> nat \<Rightarrow> 't \<Rightarrow> 't client \<Rightarrow> bool \<times> 't client" where
  "event_wait parse pid timeout c =
     (let window = (case inbox c of [] \<Rightarrow> [] | w # _ \<Rightarrow> w);
          c1 = c\<lparr>trace := trace c @ [Wait timeout], inbox := tl (inbox c)\<rparr>;
          c2 = handle_packets parse window c1
      in (response_events c2 pid = Some True, c2))"

text \<open>The \<open>finally\<close> clause: \<open>self._response_events.pop(packet_id, None)\<close>.\<close>

definition pop_event :: "nat \<Rightarrow> 't client \<Rightarrow> 't client" where
  "pop_event pid c = c\<lparr>response_events := (response_events c)(pid := None)\<rparr>"

definition send_command ::
  "(serial_packet \<Rightarrow> byte list) \<Rightarrow> (byte list \<Rightarrow> parsed) \<Rightarrow> to_device \<Rightarrow> 't option \<Rightarrow>
     't client \<Rightarrow> ('t error + from_device) \<times> 't client" where
  "send_command ser parse to_dev timeout c =
     (let timeout' = (case timeout of Some t \<Rightarrow> t | None \<Rightarrow> timeout_default c);
          (pid, c1) = next_packet_id c;
          packet = SerialPacket pid to_dev;
          c2 = c1\<lparr>response_events := (response_events c1)(pid \<mapsto> False)\<rparr>
      in case send_packet ser packet c2 of
           Inl e \<Rightarrow> (Inl e, pop_event pid c2)
         | Inr c3 \<Rightarrow>
             (let (fired, c4) = event_wait parse pid timeout' c3 in
              if \<not> fired then (Inl (TimeoutError timeout'), pop_event pid c4)
              else (case pending_responses c4 pid of
                      None \<Rightarrow> (Inl (KeyError pid), pop_event pid c4)
                    | Some response \<Rightarrow>
                        (Inr response,
                         pop_event pid
                           (c4\<lparr>pending_responses := (pending_responses c4)(pid := None)\<rparr>)))))"

subsection \<open>send\_message, \_send\_split\_message, broadcast\<close>

definition MAX_LENGTH :: nat where "MAX_LENGTH = 180"
definition CHUNK_SIZE :: nat where "CHUNK_SIZE = 160"

text \<open>Python's \<open>str\<close> of a non-negative integer, as the f-string prints \<open>i+1\<close> and \<open>total\<close>.\<close>

function str_nat :: "nat \<Rightarrow> string" where
  "str_nat n = (if n < 10 then [''0123456789'' ! n]
                else str_nat (n div 10) @ [''0123456789'' ! (n mod 10)])"
  by pat_completeness auto
termination
  by (relation "measure id") auto

text \<open>\<open>range(i, n, CHUNK_SIZE)\<close>, the start offsets of the chunks.\<close>

function chunk_range :: "nat \<Rightarrow> nat \<Rightarrow> nat list" where
  "chunk_range i n = (if i < n then i # chunk_range (i + CHUNK_SIZE) n else [])"
  by pat_completeness auto
termination
  by (relation "measure (\<lambda>(i, n). n - i)") (auto simp: CHUNK_SIZE_def)

definition split_chunks :: "string \<Rightarrow> string list" where
  "split_chunks txt = map (\<lambda>i. take CHUNK_SIZE (drop i txt)) (chunk_range 0 (length txt))"

definition sleep :: "nat \<Rightarrow> 't client \<Rightarrow> 't client" where
  "sleep ms c = c\<lparr>trace := trace c @ [Sleep ms]\<rparr>"

text \<open>
  The loop \<open>for i, chunk in enumerate(chunks)\<close> of \<open>_send_split_message\<close>, over the
  remaining pairs of index and chunk; \<open>total_n\<close> is the source's \<open>total\<close>. An exception of
  \<open>_send_command\<close> leaves the loop.
\<close>

fun send_parts ::
  "(serial_packet \<Rightarrow> byte list) \<Rightarrow> (byte list \<Rightarrow> parsed) \<Rightarrow> 't option \<Rightarrow> nat \<Rightarrow>
     (nat \<times> string) list \<Rightarrow> 't client \<Rightarrow> ('t error + unit) \<times> 't client" where
  "send_parts ser parse timeout total_n [] c = (Inr (), c)"
| "send_parts ser parse timeout total_n ((i, chunk) # rest) c =
     (let part_text = ''['' @ str_nat (i + 1) @ ''/'' @ str_nat total_n @ ''] '' @ chunk;
          cmd = SendMessageRequest '''' part_text
      in case send_command ser parse cmd timeout c of
           (Inl e, c') \<Rightarrow> (Inl e, c')
         | (Inr _, c') \<Rightarrow>
             send_parts ser parse timeout total_n rest
               (if int i < int total_n - 1 then sleep 300 c' else c'))"

definition send_split_message ::
  "(serial_packet \<Rightarrow> byte list) \<Rightarrow> (byte list \<Rightarrow> parsed) \<Rightarrow> string \<Rightarrow> 't option \<Rightarrow> 't option \<Rightarrow>
     't client \<Rightarrow> ('t error + string) \<times> 't client" where
  "send_split_message ser parse txt priority timeout c =
     (let chunks = split_chunks txt; total_n = length chunks
      in case send_parts ser parse timeout total_n (List.enumerate 0 chunks) c of
           (Inl e, c') \<Rightarrow> (Inl e, c')
         | (Inr _, c') \<Rightarrow> (Inr '''', c'))"

definition send_message ::
  "(serial_packet \<Rightarrow> byte list) \<Rightarrow> (byte list \<Rightarrow> parsed) \<Rightarrow> string \<Rightarrow> 't option \<Rightarrow> 't option \<Rightarrow>
     bool \<Rightarrow> 't client \<Rightarrow> ('t error + string) \<times> 't client" where
  "send_message ser parse txt priority timeout auto_split c =
     (if length txt \<le> MAX_LENGTH then
        (case send_command ser parse (SendMessageRequest '''' txt) timeout c of
           (Inl e, c') \<Rightarrow> (Inl e, c')
         | (Inr _, c') \<Rightarrow> (Inr '''', c'))
      else if \<not> auto_split then (Inl (MessageTooLong (length txt) MAX_LENGTH), c)
      else send_split_message ser parse txt priority timeout c)"

text \<open>
  \<open>broadcast\<close> calls \<open>self.send_message(text, timeout)\<close>: the second positional parameter
  of \<open>send_message\<close> is \<open>priority\<close>, and \<open>timeout\<close> and \<open>auto_split\<close> take their defaults
  \<open>None\<close> and \<open>False\<close>.
\<close>

definition broadcast ::
  "(serial_packet \<Rightarrow> byte list) \<Rightarrow> (byte list \<Rightarrow> parsed) \<Rightarrow> string \<Rightarrow> 't option \<Rightarrow>
     't client \<Rightarrow> ('t error + string) \<times> 't client" where
  "broadcast ser parse txt timeout c = send_message ser parse txt timeout None False c"

subsection \<open>Notions used to state the properties\<close>

text \<open>\<open>n\<close> successive calls of \<open>_next_packet_id\<close>, with the ids they return, in order.\<close>

fun allocate_ids :: "nat \<Rightarrow> 't client \<Rightarrow> nat list \<times> 't client" where
  "allocate_ids 0 c = ([], c)"
| "allocate_ids (Suc n) c =
     (let (p, c1) = next_packet_id c; (ps, c2) = allocate_ids n c1 in (p # ps, c2))"

text \<open>
  The replies to request \<open>pid\<close> among the frames of a window: the frames that parse to a
  \<open>from_device\<close> whose \<open>request_id\<close> is \<open>pid\<close>.
\<close>

definition reply_to :: "(byte list \<Rightarrow> parsed) \<Rightarrow> nat \<Rightarrow> byte list \<Rightarrow> from_device option" where
  "reply_to parse pid d =
     (case parse d of
        HasFromDevice response \<Rightarrow> if request_id response = pid then Some response else None
      | _ \<Rightarrow> None)"

definition replies :: "(byte list \<Rightarrow> parsed) \<Rightarrow> nat \<Rightarrow> byte list list \<Rightarrow> from_device list" where
  "replies parse pid window = List.map_filter (reply_to parse pid) window"

text \<open>The window of frames that arrive during the next wait of client \<open>c\<close>.\<close>

definition next_window :: "'t client \<Rightarrow> byte list list" where
  "next_window c = (case inbox c of [] \<Rightarrow> [] | w # _ \<Rightarrow> w)"

text \<open>
  The id that \<open>_next_packet_id\<close> returns when the counter holds \<open>p\<close>, and the timeout that
  \<open>_send_command\<close> waits with (\<open>timeout if timeout is not None else self._timeout\<close>).
\<close>

definition next_id :: "nat \<Rightarrow> nat" where
  "next_id p = (p + 1) mod 0xFFFFFFFF"

definition effective_timeout :: "'t option \<Rightarrow> 't client \<Rightarrow> 't" where
  "effective_timeout timeout c = (case timeout of Some t \<Rightarrow> t | None \<Rightarrow> timeout_default c)"

text \<open>
  The chunking of the specification: a text is cut into \<open>ceil(len/160)\<close> consecutive chunks
  of 160 characters (the last one holds what is left), and chunk \<open>i\<close> of \<open>N\<close>, counted from
  1, is transmitted as \<open>"[i/N] " + chunk\<close>.
\<close>

definition spec_total :: "string \<Rightarrow> nat" where
  "spec_total txt = (length txt + 159) div 160"

definition spec_chunk :: "string \<Rightarrow> nat \<Rightarrow> string" where
  "spec_chunk txt i = take 160 (drop (160 * (i - 1)) txt)"

definition spec_part :: "string \<Rightarrow> nat \<Rightarrow> string" where
  "spec_part txt i =
     ''['' @ str_nat i @ ''/'' @ str_nat (spec_total txt) @ ''] '' @ spec_chunk txt i"

text \<open>
  What the specification lets the calling thread do to transmit \<open>m\<close> parts in a row, the
  parts \<open>i + 1\<close>, ..., \<open>i + m\<close>, when \<open>p\<close> is the last packet id used: each part is written as a
  command of its own and waited for with timeout \<open>t\<close>, with a pause of 300 ms between two
  consecutive sends and none after the last.
\<close>

fun spec_sends ::
  "(serial_packet \<Rightarrow> byte list) \<Rightarrow> 't \<Rightarrow> string \<Rightarrow> nat \<Rightarrow> nat \<Rightarrow> nat \<Rightarrow> 't io_event list" where
  "spec_sends ser t txt i 0 p = []"
| "spec_sends ser t txt i (Suc m) p =
     [Write (slip_encode (ser (SerialPacket (next_id p)
                                 (SendMessageRequest '''' (spec_part txt (Suc i)))))),
      Wait t] @
     (if m = 0 then [] else Sleep 300 # spec_sends ser t txt (Suc i) m (next_id p))"

text \<open>
  Whether the \<open>j\<close>-th command sent from now on (\<open>j \<ge> 1\<close>) is answered while it waits, when
  \<open>p\<close> is the last packet id used and \<open>ws\<close> the windows of frames still to arrive: its id is
  the \<open>j\<close>-th after \<open>p\<close>, its window the \<open>j\<close>-th of \<open>ws\<close>.
\<close>

definition got_reply :: "(byte list \<Rightarrow> parsed) \<Rightarrow> nat \<Rightarrow> byte list list list \<Rightarrow> nat \<Rightarrow> bool" where
  "got_reply parse p ws j =
     (replies parse ((next_id ^^ j) p) (if j - 1 < length ws then ws ! (j - 1) else []) \<noteq> [])"

subsection \<open>A small codec for concrete runs\<close>

text \<open>
  Concrete runs need some serialiser and parser in place of protobuf. \<open>toy_ser\<close> writes the
  packet id as one byte, followed by the bytes of the text of a \<open>send_message\<close> request.
  \<open>toy_parse\<close> reads the request id from the first byte and the payload kind from the
  second; a one-byte frame is a packet without \<open>from_device\<close>, the empty frame does not parse.
\<close>

definition toy_ser :: "serial_packet \<Rightarrow> byte list" where
  "toy_ser packet =
     of_nat (packet_id_of packet) #
     (case to_device_of packet of
        SendMessageRequest d t \<Rightarrow> map of_char t
      | OtherRequest name \<Rightarrow> [])"

definition toy_parse :: "byte list \<Rightarrow> parsed" where
  "toy_parse d =
     (case d of
        [] \<Rightarrow> ParseError
      | [k] \<Rightarrow> NoFromDevice
      | k # t # content \<Rightarrow>
          HasFromDevice \<lparr>request_id = unat k,
                         payload_type = (if t = 0 then Some ''result''
                                         else if t = 1 then Some ''message_received''
                                         else None),
                         payload_content = content\<rparr>)"

text \<open>A connected client with default timeout 5 and the given windows of arriving frames.\<close>

definition connected_client :: "byte list list list \<Rightarrow> nat client" where
  "connected_client ws = (LoRaMeshClient_init 5)\<lparr>is_connected := True, inbox := ws\<rparr>"

section \<open>Properties of the framing\<close>

lemma encode_loop_acc: "encode_loop xs acc = acc @ encode_loop xs []"
proof (induction xs arbitrary: acc)
  case Nil
  show ?case by simp
next
  case (Cons b bs)
  have "encode_loop bs (acc @ ys) = acc @ encode_loop bs ys" for ys
    using Cons.IH [of "acc @ ys"] Cons.IH [of ys] by simp
  then show ?case by simp
qed

lemma decode_loop_encode:
  "decode_loop (encode_loop xs [] @ rest) acc = decode_loop rest (acc @ xs)"
proof (induction xs arbitrary: acc)
  case Nil
  show ?case by simp
next
  case (Cons b bs)
  show ?case
  proof (cases "b = SLIP_END")
    case True
    have "encode_loop (b # bs) [] = [SLIP_ESC, SLIP_ESC_END] @ encode_loop bs []"
      using True encode_loop_acc [of bs "[SLIP_ESC, SLIP_ESC_END]"] by simp
    then show ?thesis using True Cons.IH by simp
  next
    case False
    note notEnd = this
    show ?thesis
    proof (cases "b = SLIP_ESC")
      case True
      have "encode_loop (b # bs) [] = [SLIP_ESC, SLIP_ESC_ESC] @ encode_loop bs []"
        using True notEnd encode_loop_acc [of bs "[SLIP_ESC, SLIP_ESC_ESC]"]
        by (simp add: SLIP_END_def SLIP_ESC_def)
      then show ?thesis
        using True Cons.IH by (simp add: SLIP_ESC_ESC_def SLIP_ESC_END_def)
    next
      case False
      have "encode_loop (b # bs) [] = [b] @ encode_loop bs []"
        using False notEnd encode_loop_acc [of bs "[b]"] by simp
      then show ?thesis using False notEnd Cons.IH by simp
    qed
  qed
qed

lemma slip_consts_distinct:
  "SLIP_END \<noteq> SLIP_ESC" "SLIP_ESC_END \<noteq> SLIP_ESC" "SLIP_ESC_ESC \<noteq> SLIP_ESC"
  "SLIP_ESC_END \<noteq> SLIP_END" "SLIP_ESC_ESC \<noteq> SLIP_END" "SLIP_ESC_END \<noteq> SLIP_ESC_ESC"
  by (simp_all add: SLIP_END_def SLIP_ESC_def SLIP_ESC_END_def SLIP_ESC_ESC_def)

lemma malformed_Nil: "\<not> malformed_escape []"
  by (simp add: malformed_escape_def)

lemma malformed_Cons:
  "malformed_escape (b # rest) \<longleftrightarrow>
     (b = SLIP_ESC \<and> (case rest of [] \<Rightarrow> True
                        | n # _ \<Rightarrow> n \<noteq> SLIP_ESC_END \<and> n \<noteq> SLIP_ESC_ESC))
     \<or> malformed_escape rest"
  unfolding malformed_escape_def
  by (cases rest) (auto simp: lessThan_Suc_eq_insert_0)

lemma malformed_escaped:
  assumes "n = SLIP_ESC_END \<or> n = SLIP_ESC_ESC"
  shows "malformed_escape (SLIP_ESC # n # rest) \<longleftrightarrow> malformed_escape rest"
proof -
  have "n \<noteq> SLIP_ESC" using assms slip_consts_distinct by auto
  then have "malformed_escape (n # rest) \<longleftrightarrow> malformed_escape rest"
    by (simp add: malformed_Cons [of n])
  moreover have "malformed_escape (SLIP_ESC # n # rest) \<longleftrightarrow> malformed_escape (n # rest)"
    using assms by (auto simp: malformed_Cons [of SLIP_ESC])
  ultimately show ?thesis by simp
qed

lemma decode_loop_fails:
  "isl (decode_loop data acc :: 't error + byte list) \<longleftrightarrow> malformed_escape data"
proof (induction data acc rule: decode_loop.induct)
  case (1 result)
  show ?case by (simp add: malformed_Nil)
next
  case (2 b rest result)
  show ?case
  proof (cases "b = SLIP_ESC")
    case True
    note esc = this
    show ?thesis
    proof (cases rest)
      case Nil
      then show ?thesis using esc by (simp add: malformed_Cons malformed_Nil)
    next
      case (Cons n rest')
      consider "n = SLIP_ESC_END" | "n \<noteq> SLIP_ESC_END" "n = SLIP_ESC_ESC"
        | "n \<noteq> SLIP_ESC_END" "n \<noteq> SLIP_ESC_ESC" by blast
      then show ?thesis
      proof cases
        case 1
        then show ?thesis
          using esc Cons "2.IH"(1) [OF esc Cons 1] malformed_escaped [of n rest'] by simp
      next
        case 2
        then show ?thesis
          using esc Cons "2.IH"(2) [OF esc Cons 2] malformed_escaped [of n rest'] by simp
      next
        case 3
        then show ?thesis using esc Cons by (simp add: malformed_Cons [of SLIP_ESC])
      qed
    qed
  next
    case False
    then show ?thesis using "2.IH"(3,4) by (auto simp: malformed_Cons [of b])
  qed
qed

lemma decode_loop_result:
  "decode_loop data acc = (Inr r :: 't error + byte list) \<Longrightarrow>
     \<exists>r'. r = acc @ r' \<and> encode_loop r' [] = filter (\<lambda>b. b \<noteq> SLIP_END) data"
proof (induction data acc arbitrary: r rule: decode_loop.induct)
  case (1 result)
  then show ?case by simp
next
  case (2 b rest result)
  show ?case
  proof (cases "b = SLIP_ESC")
    case True
    note esc = this
    show ?thesis
    proof (cases rest)
      case Nil
      then show ?thesis using esc "2.prems" by simp
    next
      case (Cons n rest')
      consider "n = SLIP_ESC_END" | "n \<noteq> SLIP_ESC_END" "n = SLIP_ESC_ESC"
        | "n \<noteq> SLIP_ESC_END" "n \<noteq> SLIP_ESC_ESC" by blast
      then show ?thesis
      proof cases
        case 1
        have "decode_loop rest' (result @ [SLIP_END]) = (Inr r :: 't error + byte list)"
          using "2.prems" esc Cons 1 by simp
        from "2.IH"(1) [OF esc Cons 1 this]
        obtain r' where r': "r = (result @ [SLIP_END]) @ r'"
          "encode_loop r' [] = filter (\<lambda>b. b \<noteq> SLIP_END) rest'" by blast
        have "encode_loop (SLIP_END # r') [] = [SLIP_ESC, SLIP_ESC_END] @ encode_loop r' []"
          using encode_loop_acc [of r' "[SLIP_ESC, SLIP_ESC_END]"] by simp
        then have "encode_loop (SLIP_END # r') [] = filter (\<lambda>b. b \<noteq> SLIP_END) (b # rest)"
          using r'(2) esc Cons 1 slip_consts_distinct by simp
        then show ?thesis using r'(1) by auto
      next
        case 2
        have "decode_loop rest' (result @ [SLIP_ESC]) = (Inr r :: 't error + byte list)"
          using "2.prems" esc Cons 2 by simp
        from "2.IH"(2) [OF esc Cons 2 this]
        obtain r' where r': "r = (result @ [SLIP_ESC]) @ r'"
          "encode_loop r' [] = filter (\<lambda>b. b \<noteq> SLIP_END) rest'" by blast
        have "encode_loop (SLIP_ESC # r') [] = [SLIP_ESC, SLIP_ESC_ESC] @ encode_loop r' []"
          using encode_loop_acc [of r' "[SLIP_ESC, SLIP_ESC_ESC]"] slip_consts_distinct by simp
        then have "encode_loop (SLIP_ESC # r') [] = filter (\<lambda>b. b \<noteq> SLIP_END) (b # rest)"
          using r'(2) esc Cons 2 slip_consts_distinct by simp
        then show ?thesis using r'(1) by auto
      next
        case 3
        then show ?thesis using esc Cons "2.prems" by simp
      qed
    qed
  next
    case False
    note not_esc = this
    show ?thesis
    proof (cases "b = SLIP_END")
      case True
      then have "decode_loop rest result = (Inr r :: 't error + byte list)"
        using "2.prems" not_esc by simp
      from "2.IH"(4) [OF not_esc _ this] True
      show ?thesis by simp
    next
      case False
      then have "decode_loop rest (result @ [b]) = (Inr r :: 't error + byte list)"
        using "2.prems" not_esc by simp
      from "2.IH"(3) [OF not_esc False this]
      obtain r' where r': "r = (result @ [b]) @ r'"
        "encode_loop r' [] = filter (\<lambda>b. b \<noteq> SLIP_END) rest" by blast
      have "encode_loop (b # r') [] = [b] @ encode_loop r' []"
        using encode_loop_acc [of r' "[b]"] False not_esc by simp
      then have "encode_loop (b # r') [] = filter (\<lambda>b. b \<noteq> SLIP_END) (b # rest)"
        using r'(2) False by simp
      then show ?thesis using r'(1) by auto
    qed
  qed
qed

lemma feed_append: "feed (xs @ ys) r = feed ys (feed xs r)"
  by (induction xs arbitrary: r) simp_all

lemma feed_chunks_concat: "feed_chunks chunks r = feed (concat chunks) r"
  by (induction chunks arbitrary: r) (simp_all add: feed_append)

lemma decode_loop_ValueError:
  "decode_loop data acc = Inl (e :: 't error) \<Longrightarrow> is_ValueError e"
proof (induction data acc rule: decode_loop.induct)
  case (1 result)
  then show ?case by simp
next
  case (2 b rest result)
  then show ?case
    by (auto simp: is_ValueError_def split: if_splits list.splits)
qed

lemma feed_body:
  "SLIP_END \<notin> set xs \<Longrightarrow> in_packet r \<Longrightarrow> feed xs r = r\<lparr>buffer := buffer r @ xs\<rparr>"
proof (induction xs arbitrary: r)
  case Nil
  show ?case by simp
next
  case (Cons b bs)
  have "b \<noteq> SLIP_END" using Cons.prems by auto
  then have "feed_byte b r = r\<lparr>buffer := buffer r @ [b]\<rparr>"
    using Cons.prems by (simp add: feed_byte_def)
  then show ?case using Cons.IH [of "r\<lparr>buffer := buffer r @ [b]\<rparr>"] Cons.prems by simp
qed

lemma feed_END_in_packet: "in_packet (feed_byte SLIP_END r) \<and> buffer (feed_byte SLIP_END r) = []"
  by (simp add: feed_byte_def Let_def split: sum.splits)

lemma encode_loop_no_END: "SLIP_END \<notin> set (encode_loop xs [])"
proof (induction xs)
  case Nil
  show ?case by simp
next
  case (Cons b bs)
  have "encode_loop (b # bs) [] =
          (if b = SLIP_END then [SLIP_ESC, SLIP_ESC_END]
           else if b = SLIP_ESC then [SLIP_ESC, SLIP_ESC_ESC] else [b]) @ encode_loop bs []"
    using encode_loop_acc [of bs "[SLIP_ESC, SLIP_ESC_END]"]
      encode_loop_acc [of bs "[SLIP_ESC, SLIP_ESC_ESC]"] encode_loop_acc [of bs "[b]"]
    by simp
  then show ?case using Cons.IH slip_consts_distinct by auto
qed

lemma encode_loop_Nil_iff: "encode_loop xs [] = [] \<longleftrightarrow> xs = []"
proof (cases xs)
  case Nil
  then show ?thesis by simp
next
  case (Cons b bs)
  have "encode_loop (b # bs) [] =
          (if b = SLIP_END then [SLIP_ESC, SLIP_ESC_END]
           else if b = SLIP_ESC then [SLIP_ESC, SLIP_ESC_ESC] else [b]) @ encode_loop bs []"
    using encode_loop_acc [of bs "[SLIP_ESC, SLIP_ESC_END]"]
      encode_loop_acc [of bs "[SLIP_ESC, SLIP_ESC_ESC]"] encode_loop_acc [of bs "[b]"]
    by simp
  then show ?thesis using Cons by simp
qed

lemma feed_frame_bad:
  assumes "SLIP_END \<notin> set bad" and "malformed_escape bad"
  shows "feed (SLIP_END # bad @ [SLIP_END]) r = feed [SLIP_END] r"
proof -
  define r0 where "r0 = feed_byte SLIP_END r"
  have r0: "in_packet r0" "buffer r0 = []"
    using feed_END_in_packet [of r] by (simp_all add: r0_def)
  have bad_ne: "bad \<noteq> []" using assms(2) malformed_Nil by auto
  have fails: "isl (slip_decode bad :: unit error + byte list)"
    using assms(2) by (simp add: slip_decode_def decode_loop_fails)
  have "feed bad r0 = r0\<lparr>buffer := bad\<rparr>"
    using feed_body [OF assms(1) r0(1)] r0(2) by simp
  then have "feed (bad @ [SLIP_END]) r0 = feed_byte SLIP_END (r0\<lparr>buffer := bad\<rparr>)"
    by (simp add: feed_append)
  also have "\<dots> = r0"
    using r0 bad_ne fails by (cases "slip_decode bad :: unit error + byte list") (simp_all add: feed_byte_def)
  finally show ?thesis by (simp add: r0_def)
qed

lemma feed_frame_good:
  assumes "payload \<noteq> []"
  shows "feed (slip_encode payload) r = (feed [SLIP_END] r)\<lparr>packets := packets (feed [SLIP_END] r) @ [payload]\<rparr>"
proof -
  define r0 where "r0 = feed_byte SLIP_END r"
  define body where "body = encode_loop payload []"
  have r0: "in_packet r0" "buffer r0 = []"
    using feed_END_in_packet [of r] by (simp_all add: r0_def)
  have enc: "slip_encode payload = SLIP_END # body @ [SLIP_END]"
    using encode_loop_acc [of payload "[SLIP_END]"] by (simp add: slip_encode_def body_def)
  have body_ne: "body \<noteq> []" using assms encode_loop_Nil_iff by (simp add: body_def)
  have dec: "(slip_decode body :: unit error + byte list) = Inr payload"
    using decode_loop_encode [of payload "[]" "[]"] by (simp add: slip_decode_def body_def)
  have "feed body r0 = r0\<lparr>buffer := body\<rparr>"
    using feed_body [OF _ r0(1), of body] encode_loop_no_END [of payload] r0(2)
    by (simp add: body_def)
  then have "feed (body @ [SLIP_END]) r0 = feed_byte SLIP_END (r0\<lparr>buffer := body\<rparr>)"
    by (simp add: feed_append)
  also have "\<dots> = r0\<lparr>packets := packets r0 @ [payload]\<rparr>"
    using r0 body_ne dec by (simp add: feed_byte_def)
  finally show ?thesis by (simp add: r0_def enc)
qed

section \<open>Properties of the client\<close>

lemma handle_event_fields:
  "trace (handle_event r c) = trace c" "inbox (handle_event r c) = inbox c"
  "is_connected (handle_event r c) = is_connected c" "packet_id (handle_event r c) = packet_id c"
  "timeout_default (handle_event r c) = timeout_default c"
  "response_events (handle_event r c) = response_events c"
  "pending_responses (handle_event r c) = pending_responses c"
  by (simp_all add: handle_event_def invoke_def Let_def)

lemma handle_packet_fields:
  "trace (handle_packet parse d c) = trace c" "inbox (handle_packet parse d c) = inbox c"
  "is_connected (handle_packet parse d c) = is_connected c"
  "packet_id (handle_packet parse d c) = packet_id c"
  "timeout_default (handle_packet parse d c) = timeout_default c"
  by (simp_all add: handle_packet_def handle_event_fields Let_def split: parsed.splits)

lemma handle_packet_events:
  "response_events (handle_packet parse d c) k =
     (if reply_to parse k d \<noteq> None \<and> response_events c k \<noteq> None then Some True
      else response_events c k)"
  by (auto simp: handle_packet_def reply_to_def handle_event_fields Let_def split: parsed.splits)

lemma handle_packet_pending:
  "pending_responses (handle_packet parse d c) k =
     (if reply_to parse k d \<noteq> None \<and> response_events c k \<noteq> None then reply_to parse k d
      else pending_responses c k)"
  by (auto simp: handle_packet_def reply_to_def handle_event_fields Let_def split: parsed.splits)

lemma handle_packets_fields:
  "trace (handle_packets parse w c) = trace c" "inbox (handle_packets parse w c) = inbox c"
  "is_connected (handle_packets parse w c) = is_connected c"
  "packet_id (handle_packets parse w c) = packet_id c"
  "timeout_default (handle_packets parse w c) = timeout_default c"
  by (induction w arbitrary: c) (simp_all add: handle_packet_fields)

lemma replies_Cons:
  "replies parse k (d # w) =
     (case reply_to parse k d of None \<Rightarrow> replies parse k w | Some r \<Rightarrow> r # replies parse k w)"
  by (simp add: replies_def map_filter_simps split: option.splits)

lemma replies_Nil: "replies parse k [] = []"
  by (simp add: replies_def map_filter_simps)

lemma handle_packets_registered:
  "response_events c k \<noteq> None \<Longrightarrow>
     response_events (handle_packets parse w c) k =
       (if replies parse k w = [] then response_events c k else Some True) \<and>
     pending_responses (handle_packets parse w c) k =
       (if replies parse k w = [] then pending_responses c k
        else Some (last (replies parse k w)))"
proof (induction w arbitrary: c)
  case Nil
  show ?case by (simp add: replies_Nil)
next
  case (Cons d w)
  let ?c1 = "handle_packet parse d c"
  have reg: "response_events ?c1 k \<noteq> None"
    using Cons.prems by (auto simp: handle_packet_events)
  show ?case
  proof (cases "reply_to parse k d")
    case None
    then have same: "response_events ?c1 k = response_events c k"
      "pending_responses ?c1 k = pending_responses c k"
      by (simp_all add: handle_packet_events handle_packet_pending)
    show ?thesis using Cons.IH [OF reg] None same by (simp add: replies_Cons)
  next
    case (Some r)
    then have upd: "response_events ?c1 k = Some True" "pending_responses ?c1 k = Some r"
      using Cons.prems by (auto simp: handle_packet_events handle_packet_pending)
    show ?thesis using Cons.IH [OF reg] Some upd by (simp add: replies_Cons)
  qed
qed

lemma send_command_connected:
  fixes c :: "'t client" and timeout :: "'t option"
  assumes "is_connected c"
  shows "fst (send_command ser parse cmd timeout c) =
           (if replies parse (next_id (packet_id c)) (next_window c) = []
            then Inl (TimeoutError (effective_timeout timeout c))
            else Inr (last (replies parse (next_id (packet_id c)) (next_window c))))"
    and "trace (snd (send_command ser parse cmd timeout c)) =
           trace c @ [Write (slip_encode (ser (SerialPacket (next_id (packet_id c)) cmd))),
                      Wait (effective_timeout timeout c)]"
    and "packet_id (snd (send_command ser parse cmd timeout c)) = next_id (packet_id c)"
    and "is_connected (snd (send_command ser parse cmd timeout c))"
    and "timeout_default (snd (send_command ser parse cmd timeout c)) = timeout_default c"
    and "inbox (snd (send_command ser parse cmd timeout c)) = tl (inbox c)"
    and "response_events (snd (send_command ser parse cmd timeout c)) (next_id (packet_id c)) = None"
    and "pending_responses (snd (send_command ser parse cmd timeout c)) (next_id (packet_id c)) =
           (if replies parse (next_id (packet_id c)) (next_window c) = []
            then pending_responses c (next_id (packet_id c)) else None)"
proof -
  define pid where "pid = next_id (packet_id c)"
  define t' where "t' = effective_timeout timeout c"
  define res where "res = send_command ser parse cmd timeout c"
  have pid: "Suc (packet_id c) mod 0xFFFFFFFF = pid" by (simp add: pid_def next_id_def)
  have t': "(case timeout of Some t \<Rightarrow> t | None \<Rightarrow> timeout_default c) = t'"
    by (simp add: t'_def effective_timeout_def)
  define c2 where "c2 = c\<lparr>packet_id := pid, response_events := (response_events c)(pid \<mapsto> False)\<rparr>"
  define c3 where "c3 = c2\<lparr>trace := trace c @ [Write (slip_encode (ser (SerialPacket pid cmd)))]\<rparr>"
  define c3' where "c3' = c3\<lparr>trace := trace c3 @ [Wait t'], inbox := tl (inbox c3)\<rparr>"
  define c4 where "c4 = handle_packets parse (next_window c) c3'"
  have reg: "response_events c3' pid \<noteq> None"
    by (simp add: c3'_def c3_def c2_def)
  note hp = handle_packets_registered [OF reg, of parse "next_window c", folded c4_def]
  have ev: "response_events c4 pid = (if replies parse pid (next_window c) = [] then Some False else Some True)"
    using hp by (simp add: c3'_def c3_def c2_def)
  have pe: "pending_responses c4 pid = (if replies parse pid (next_window c) = [] then pending_responses c pid
        else Some (last (replies parse pid (next_window c))))"
    using hp by (simp add: c3'_def c3_def c2_def)
  have wait: "event_wait parse pid t' c3 = (replies parse pid (next_window c) \<noteq> [], c4)"
    using ev by (simp add: event_wait_def c4_def c3'_def next_window_def c3_def c2_def Let_def)
  have res: "res = (if replies parse pid (next_window c) = [] then (Inl (TimeoutError t'), pop_event pid c4)
                else (Inr (last (replies parse pid (next_window c))),
                      pop_event pid (c4\<lparr>pending_responses := (pending_responses c4)(pid := None)\<rparr>)))"
    unfolding res_def send_command_def next_packet_id_def send_packet_def
    using assms(1) wait pe
    by (simp add: Let_def pid t' c2_def c3_def)
  have c4f: "trace c4 = trace c3'" "packet_id c4 = packet_id c3'" "is_connected c4 = is_connected c3'"
    "timeout_default c4 = timeout_default c3'" "inbox c4 = inbox c3'"
    by (simp_all add: c4_def handle_packets_fields)
  have r1: "fst res = (if replies parse pid (next_window c) = [] then Inl (TimeoutError t')
                    else Inr (last (replies parse pid (next_window c))))"
    by (simp add: res)
  have r2: "trace (snd res) = trace c @ [Write (slip_encode (ser (SerialPacket pid cmd))), Wait t']"
    by (simp add: res pop_event_def c4f c3'_def c3_def c2_def)
  have r3: "packet_id (snd res) = pid"
    by (simp add: res pop_event_def c4f c3'_def c3_def c2_def)
  have r4: "is_connected (snd res)"
    using assms(1) by (simp add: res pop_event_def c4f c3'_def c3_def c2_def)
  have r5: "timeout_default (snd res) = timeout_default c"
    by (simp add: res pop_event_def c4f c3'_def c3_def c2_def)
  have r6: "inbox (snd res) = tl (inbox c)"
    by (simp add: res pop_event_def c4f c3'_def c3_def c2_def)
  have r7: "response_events (snd res) pid = None"
    by (simp add: res pop_event_def)
  have r8: "pending_responses (snd res) pid =
           (if replies parse pid (next_window c) = [] then pending_responses c pid else None)"
    by (simp add: res pop_event_def pe)
  show "fst (send_command ser parse cmd timeout c) =
           (if replies parse (next_id (packet_id c)) (next_window c) = []
            then Inl (TimeoutError (effective_timeout timeout c))
            else Inr (last (replies parse (next_id (packet_id c)) (next_window c))))"
    using r1 unfolding res_def pid_def t'_def .
  show "trace (snd (send_command ser parse cmd timeout c)) =
           trace c @ [Write (slip_encode (ser (SerialPacket (next_id (packet_id c)) cmd))),
                      Wait (effective_timeout timeout c)]"
    using r2 unfolding res_def pid_def t'_def .
  show "packet_id (snd (send_command ser parse cmd timeout c)) = next_id (packet_id c)"
    using r3 unfolding res_def pid_def t'_def .
  show "is_connected (snd (send_command ser parse cmd timeout c))"
    using r4 unfolding res_def pid_def t'_def .
  show "timeout_default (snd (send_command ser parse cmd timeout c)) = timeout_default c"
    using r5 unfolding res_def pid_def t'_def .
  show "inbox (snd (send_command ser parse cmd timeout c)) = tl (inbox c)"
    using r6 unfolding res_def pid_def t'_def .
  show "response_events (snd (send_command ser parse cmd timeout c)) (next_id (packet_id c)) = None"
    using r7 unfolding res_def pid_def t'_def .
  show "pending_responses (snd (send_command ser parse cmd timeout c)) (next_id (packet_id c)) =
           (if replies parse (next_id (packet_id c)) (next_window c) = []
            then pending_responses c (next_id (packet_id c)) else None)"
    using r8 unfolding res_def pid_def t'_def .
qed

lemma next_packet_id_eq:
  "next_packet_id c = (next_id (packet_id c), c\<lparr>packet_id := next_id (packet_id c)\<rparr>)"
  by (simp add: next_packet_id_def next_id_def Let_def)

lemma allocate_ids_from:
  "fst (allocate_ids n c) = map (\<lambda>k. (packet_id c + Suc k) mod 0xFFFFFFFF) [0..<n]"
proof (induction n arbitrary: c)
  case 0
  show ?case by simp
next
  case (Suc n)
  let ?c1 = "c\<lparr>packet_id := next_id (packet_id c)\<rparr>"
  have step: "Suc (next_id (packet_id c) + k) mod 0xFFFFFFFF
                = Suc (Suc (packet_id c + k)) mod 0xFFFFFFFF" for k
  proof -
    have "Suc (next_id (packet_id c) + k) mod 0xFFFFFFFF
            = ((packet_id c + 1) mod 0xFFFFFFFF + Suc k) mod 0xFFFFFFFF"
      by (simp add: next_id_def)
    also have "\<dots> = ((packet_id c + 1) + Suc k) mod 0xFFFFFFFF"
      by (rule mod_add_left_eq)
    finally show ?thesis by simp
  qed
  have "fst (allocate_ids (Suc n) c) = next_id (packet_id c) # fst (allocate_ids n ?c1)"
    by (simp add: next_packet_id_eq split: prod.splits)
  also have "fst (allocate_ids n ?c1) =
      map (\<lambda>k. (packet_id c + Suc (Suc k)) mod 0xFFFFFFFF) [0..<n]"
    using Suc.IH [of ?c1] by (simp add: step)
  finally show ?case
    by (simp add: next_id_def map_upt_Suc del: upt_Suc)
qed

lemma ids_image: "(\<lambda>k. Suc k mod 4294967295) ` {0..<4294967295} = {0..<4294967295::nat}"
proof (intro equalityI subsetI)
  fix v :: nat
  assume "v \<in> (\<lambda>k. Suc k mod 4294967295) ` {0..<4294967295}"
  then show "v \<in> {0..<4294967295}" by auto
next
  fix v :: nat
  assume v: "v \<in> {0..<4294967295}"
  show "v \<in> (\<lambda>k. Suc k mod 4294967295) ` {0..<4294967295}"
  proof (cases v)
    case 0
    have "Suc 4294967294 mod 4294967295 = (0::nat)" by simp
    moreover have "(4294967294::nat) \<in> {0..<4294967295}" by simp
    ultimately show ?thesis using 0 by (metis (mono_tags, lifting) image_iff)
  next
    case (Suc k)
    then have "Suc k mod 4294967295 = v" "k \<in> {0..<4294967295}" using v by auto
    then show ?thesis by (metis (mono_tags, lifting) image_iff)
  qed
qed

lemma send_command_disconnected:
  "\<not> is_connected c \<Longrightarrow>
     send_command ser parse cmd timeout c =
       (Inl ConnectionError,
        c\<lparr>packet_id := next_id (packet_id c),
          response_events := (response_events c)(next_id (packet_id c) := None)\<rparr>)"
  by (simp add: send_command_def next_packet_id_def send_packet_def pop_event_def next_id_def
      Let_def)

lemma handle_packet_late:
  assumes "response_events c pid = None" and "parse late = HasFromDevice r"
    and "request_id r = pid"
  shows "handle_packet parse late c = handle_event r c"
  using assms by (simp add: handle_packet_def Let_def)

lemma handle_event_reply:
  assumes "payload_type r \<notin> Some ` {''message_received'', ''gps_received'',
             ''neighbor_changed'', ''emergency_received'', ''log''}"
  shows "handle_event r c = c"
  using assms by (simp add: handle_event_def Let_def)

lemma chunk_range_eq:
  "chunk_range (160 * a) n = map (\<lambda>j. 160 * j) [a..<(n + 159) div 160]"
proof (induction "(n + 159) div 160 - a" arbitrary: a)
  case 0
  then have "(n + 159) div 160 \<le> a" by simp
  then have "n \<le> 160 * a" by arith
  then show ?case using \<open>(n + 159) div 160 \<le> a\<close> by simp
next
  case (Suc k)
  then have lt: "a < (n + 159) div 160" by simp
  then have "160 * a < n" by arith
  then have "chunk_range (160 * a) n = 160 * a # chunk_range (160 * Suc a) n"
    by (simp add: CHUNK_SIZE_def)
  moreover have "chunk_range (160 * Suc a) n = map (\<lambda>j. 160 * j) [Suc a..<(n + 159) div 160]"
    using Suc.hyps(1) [of "Suc a"] Suc.hyps(2) by simp
  ultimately show ?case using lt by (simp add: upt_conv_Cons)
qed

lemma split_chunks_eq:
  "split_chunks txt = map (\<lambda>j. take 160 (drop (160 * j) txt)) [0..<spec_total txt]"
  using chunk_range_eq [of 0 "length txt"]
  by (simp add: split_chunks_def spec_total_def CHUNK_SIZE_def comp_def)

lemma enumerate_split_chunks:
  "List.enumerate 0 (split_chunks txt) =
     map (\<lambda>j. (j, take 160 (drop (160 * j) txt))) [0..<spec_total txt]"
  by (simp add: split_chunks_eq enumerate_map_upt)

lemma length_split_chunks: "length (split_chunks txt) = spec_total txt"
  by (simp add: split_chunks_eq)

lemma got_reply_1:
  "got_reply parse p ws (Suc 0) \<longleftrightarrow> replies parse (next_id p) (case ws of [] \<Rightarrow> [] | w # _ \<Rightarrow> w) \<noteq> []"
  by (cases ws) (simp_all add: got_reply_def)

lemma got_reply_shift:
  "1 \<le> j \<Longrightarrow> got_reply parse p ws (Suc j) = got_reply parse (next_id p) (tl ws) j"
proof -
  assume j: "1 \<le> j"
  have id: "(next_id ^^ Suc j) p = (next_id ^^ j) (next_id p)"
    by (simp add: funpow_swap1)
  have win: "(if Suc j - 1 < length ws then ws ! (Suc j - 1) else [])
      = (if j - 1 < length (tl ws) then tl ws ! (j - 1) else [])"
  proof (cases ws)
    case Nil
    then show ?thesis by simp
  next
    case (Cons w ws')
    then show ?thesis using j by (cases j) auto
  qed
  show ?thesis unfolding got_reply_def by (simp only: id win)
qed

lemma parts_Cons:
  "i < spec_total txt \<Longrightarrow>
     map (\<lambda>j. (j, take 160 (drop (160 * j) txt))) [i..<spec_total txt] =
       (i, take 160 (drop (160 * i) txt)) #
       map (\<lambda>j. (j, take 160 (drop (160 * j) txt))) [Suc i..<spec_total txt]"
  by (simp add: upt_conv_Cons)

lemma send_parts_step:
  fixes c :: "'t client"
  assumes "i < spec_total txt" and "is_connected c"
  shows "send_parts ser parse timeout (spec_total txt)
           (map (\<lambda>j. (j, take 160 (drop (160 * j) txt))) [i..<spec_total txt]) c =
         (if replies parse (next_id (packet_id c)) (next_window c) = []
          then (Inl (TimeoutError (effective_timeout timeout c)),
                snd (send_command ser parse (SendMessageRequest [] (spec_part txt (Suc i))) timeout c))
          else send_parts ser parse timeout (spec_total txt)
                 (map (\<lambda>j. (j, take 160 (drop (160 * j) txt))) [Suc i..<spec_total txt])
                 (if Suc i < spec_total txt
                  then sleep 300 (snd (send_command ser parse
                                         (SendMessageRequest [] (spec_part txt (Suc i))) timeout c))
                  else snd (send_command ser parse
                              (SendMessageRequest [] (spec_part txt (Suc i))) timeout c)))"
proof -
  let ?sc = "send_command ser parse (SendMessageRequest [] (spec_part txt (Suc i))) timeout c"
  have part: "[CHR ''[''] @ str_nat (i + 1) @ [CHR ''/''] @ str_nat (spec_total txt) @
                [CHR '']'', CHR '' ''] @ take 160 (drop (160 * i) txt) = spec_part txt (Suc i)"
    by (simp add: spec_part_def spec_chunk_def)
  have cond: "(int i < int (spec_total txt) - 1) = (Suc i < spec_total txt)"
    by auto
  obtain res c1 where sc: "?sc = (res, c1)" by (cases ?sc)
  have res: "res = (if replies parse (next_id (packet_id c)) (next_window c) = []
                    then Inl (TimeoutError (effective_timeout timeout c))
                    else Inr (last (replies parse (next_id (packet_id c)) (next_window c))))"
    using send_command_connected(1) [OF assms(2), of ser parse
        "SendMessageRequest [] (spec_part txt (Suc i))" timeout] sc by simp
  show ?thesis
    unfolding parts_Cons [OF assms(1)]
    by (simp only: send_parts.simps Let_def part cond sc) (simp add: res)
qed

lemma spec_sends_one:
  "spec_sends ser t txt i (Suc 0) p =
     [Write (slip_encode (ser (SerialPacket (next_id p)
                                 (SendMessageRequest [] (spec_part txt (Suc i)))))), Wait t]"
  by simp

lemma send_parts_run:
  fixes c :: "'t client"
  assumes "is_connected c"
  shows "\<exists>m. m \<le> spec_total txt - i \<and> (i < spec_total txt \<longrightarrow> 1 \<le> m) \<and>
     trace (snd (send_parts ser parse timeout (spec_total txt)
                   (map (\<lambda>j. (j, take 160 (drop (160 * j) txt))) [i..<spec_total txt]) c))
       = trace c @ spec_sends ser (effective_timeout timeout c) txt i m (packet_id c) \<and>
     (\<forall>j. 1 \<le> j \<and> j < m \<longrightarrow> got_reply parse (packet_id c) (inbox c) j) \<and>
     (if m = 0 \<or> got_reply parse (packet_id c) (inbox c) m
      then m = spec_total txt - i \<and>
           fst (send_parts ser parse timeout (spec_total txt)
                  (map (\<lambda>j. (j, take 160 (drop (160 * j) txt))) [i..<spec_total txt]) c) = Inr ()
      else fst (send_parts ser parse timeout (spec_total txt)
                  (map (\<lambda>j. (j, take 160 (drop (160 * j) txt))) [i..<spec_total txt]) c)
             = Inl (TimeoutError (effective_timeout timeout c)))"
  using assms
proof (induction "spec_total txt - i" arbitrary: i c)
  case 0
  then have "[i..<spec_total txt] = []" by simp
  then show ?case using 0 by (intro exI [of _ 0]) simp
next
  case (Suc k)
  let ?N = "spec_total txt"
  let ?p = "packet_id c"
  let ?t = "effective_timeout timeout c"
  let ?sc = "send_command ser parse (SendMessageRequest [] (spec_part txt (Suc i))) timeout c"
  let ?R = "\<lambda>i c. send_parts ser parse timeout ?N
                 (map (\<lambda>j. (j, take 160 (drop (160 * j) txt))) [i..<?N]) c"
  have lt: "i < ?N" using Suc.hyps(2) by simp
  have conn: "is_connected c" using Suc.prems .
  note step = send_parts_step [OF lt conn, of ser parse timeout]
  note scf = send_command_connected [OF conn, of ser parse
      "SendMessageRequest [] (spec_part txt (Suc i))" timeout]
  have win: "(case inbox c of [] \<Rightarrow> [] | w # _ \<Rightarrow> w) = next_window c"
    by (simp add: next_window_def)
  show ?case
  proof (cases "replies parse (next_id ?p) (next_window c) = []")
    case True
    have R: "?R i c = (Inl (TimeoutError ?t), snd ?sc)"
      using step True by simp
    have no: "\<not> got_reply parse ?p (inbox c) (Suc 0)"
      using True by (simp add: got_reply_1 win)
    have tr: "trace (snd (?R i c)) = trace c @ spec_sends ser ?t txt i (Suc 0) ?p"
      using scf(2) by (simp only: R snd_conv spec_sends_one)
    show ?thesis
      using lt no tr R by (intro exI [of _ "Suc 0"]) simp
  next
    case False
    define c1 where "c1 = (if Suc i < ?N then sleep 300 (snd ?sc) else snd ?sc)"
    have R: "?R i c = ?R (Suc i) c1"
      using step False by (simp add: c1_def)
    have yes: "got_reply parse ?p (inbox c) (Suc 0)"
      using False by (simp add: got_reply_1 win)
    have c1: "is_connected c1" "packet_id c1 = next_id ?p" "inbox c1 = tl (inbox c)"
      "effective_timeout timeout c1 = ?t"
      "trace c1 = trace c @ [Write (slip_encode (ser (SerialPacket (next_id ?p)
                    (SendMessageRequest [] (spec_part txt (Suc i)))))), Wait ?t]
                  @ (if Suc i < ?N then [Sleep 300] else [])"
      using scf(2-6) by (simp_all add: c1_def sleep_def effective_timeout_def split: option.splits)
    have k: "k = ?N - Suc i" using Suc.hyps(2) by simp
    from Suc.hyps(1) [OF k c1(1)]
    obtain m where m: "m \<le> ?N - Suc i" "Suc i < ?N \<longrightarrow> 1 \<le> m"
      "trace (snd (?R (Suc i) c1)) = trace c1 @ spec_sends ser ?t txt (Suc i) m (next_id ?p)"
      "\<forall>j. 1 \<le> j \<and> j < m \<longrightarrow> got_reply parse (next_id ?p) (tl (inbox c)) j"
      "if m = 0 \<or> got_reply parse (next_id ?p) (tl (inbox c)) m
       then m = ?N - Suc i \<and> fst (?R (Suc i) c1) = Inr ()
       else fst (?R (Suc i) c1) = Inl (TimeoutError ?t)"
      unfolding c1(2,3,4) by blast
    have m0: "m = 0 \<longleftrightarrow> \<not> Suc i < ?N" using m(1,2) by auto
    have tr: "trace (snd (?R i c)) = trace c @ spec_sends ser ?t txt i (Suc m) ?p"
    proof (cases "m = 0")
      case True
      then show ?thesis using m(3) m0 by (simp add: R c1(5))
    next
      case False
      then show ?thesis using m(3) m0 by (simp add: R c1(5))
    qed
    have before: "got_reply parse ?p (inbox c) j" if "1 \<le> j" "j < Suc m" for j
    proof (cases j)
      case 0
      then show ?thesis using that by simp
    next
      case (Suc j')
      show ?thesis
      proof (cases "j' = 0")
        case True
        then show ?thesis using yes Suc by simp
      next
        case False
        then have "1 \<le> j'" "j' < m" using that Suc by auto
        then show ?thesis using m(4) got_reply_shift [of j' parse ?p "inbox c"] Suc by simp
      qed
    qed
    have final: "if got_reply parse ?p (inbox c) (Suc m)
       then Suc m = ?N - i \<and> fst (?R i c) = Inr ()
       else fst (?R i c) = Inl (TimeoutError ?t)"
    proof (cases "m = 0")
      case True
      then show ?thesis using m(5) yes lt R by auto
    next
      case False
      then have "got_reply parse ?p (inbox c) (Suc m) = got_reply parse (next_id ?p) (tl (inbox c)) m"
        using got_reply_shift [of m parse ?p "inbox c"] by simp
      then show ?thesis using m(5) False lt R by auto
    qed
    show ?thesis
      using m(1) lt tr before final by (intro exI [of _ "Suc m"]) auto
  qed
qed

lemma concat_chunks_take:
  "concat (map (\<lambda>j. take n (drop (n * j) xs)) [0..<k]) = take (n * k) xs"
proof (induction k)
  case 0
  show ?case by simp
next
  case (Suc k)
  have "take (n * k) xs @ take n (drop (n * k) xs) = take (n * k + n) xs"
    by (simp add: take_add)
  then show ?case using Suc by (simp add: add.commute)
qed

lemma spec_chunks_cover:
  "concat (map (\<lambda>i. spec_chunk txt (Suc i)) [0..<spec_total txt]) = txt"
proof -
  have "length txt \<le> 160 * spec_total txt"
    unfolding spec_total_def by arith
  then show ?thesis
    using concat_chunks_take [of 160 "txt" "spec_total txt"] by (simp add: spec_chunk_def)
qed

lemma spec_chunk_length:
  "1 \<le> i \<Longrightarrow> i < spec_total txt \<Longrightarrow> length (spec_chunk txt i) = 160"
  unfolding spec_chunk_def spec_total_def by (simp add: min_def) arith

lemma send_split_message_disconnected:
  fixes c :: "'t client"
  assumes "0 < spec_total txt" and "\<not> is_connected c"
  shows "fst (send_split_message ser parse txt priority timeout c) = Inl ConnectionError"
    and "trace (snd (send_split_message ser parse txt priority timeout c)) = trace c"
proof -
  have part: "[CHR ''[''] @ str_nat (0 + 1) @ [CHR ''/''] @ str_nat (spec_total txt) @
                [CHR '']'', CHR '' ''] @ take 160 (drop (160 * 0) txt) = spec_part txt (Suc 0)"
    by (simp add: spec_part_def spec_chunk_def)
  have sp: "send_parts ser parse timeout (spec_total txt)
          (map (\<lambda>j. (j, take 160 (drop (160 * j) txt))) [0..<spec_total txt]) c
        = (Inl ConnectionError,
           c\<lparr>packet_id := next_id (packet_id c),
             response_events := (response_events c)(next_id (packet_id c) := None)\<rparr>)"
    unfolding parts_Cons [OF assms(1)]
    by (simp only: send_parts.simps Let_def part
        send_command_disconnected [OF assms(2)]) simp
  show "fst (send_split_message ser parse txt priority timeout c) = Inl ConnectionError"
    by (simp add: send_split_message_def Let_def enumerate_split_chunks length_split_chunks sp)
  show "trace (snd (send_split_message ser parse txt priority timeout c)) = trace c"
    by (simp add: send_split_message_def Let_def enumerate_split_chunks length_split_chunks sp)
qed

lemma send_split_message_parts:
  "send_split_message ser parse txt priority timeout c =
     (case send_parts ser parse timeout (spec_total txt)
             (map (\<lambda>j. (j, take 160 (drop (160 * j) txt))) [0..<spec_total txt]) c of
        (Inl e, c') \<Rightarrow> (Inl e, c') | (Inr u, c') \<Rightarrow> (Inr [], c'))"
  by (simp add: send_split_message_def Let_def enumerate_split_chunks length_split_chunks)

lemma str_nat_digits: "str_nat 1 = ''1''" "str_nat 2 = ''2''"
  by (simp_all add: str_nat.simps)

section \<open>The claims\<close>

text \<open>
  C3. The frame codec round-trips every payload: decoding the encoding of any byte
  sequence succeeds and returns that sequence.
\<close>

theorem slip_roundtrip: "slip_decode (slip_encode x) = Inr x"
proof -
  have "slip_encode x = [SLIP_END] @ (encode_loop x [] @ [SLIP_END])"
    using encode_loop_acc [of x "[SLIP_END]"] by (simp add: slip_encode_def)
  then have "slip_decode (slip_encode x) = decode_loop (encode_loop x [] @ [SLIP_END]) []"
    by (simp add: slip_decode_def SLIP_END_def SLIP_ESC_def)
  also have "\<dots> = decode_loop [SLIP_END] x"
    using decode_loop_encode [of x "[SLIP_END]" "[]"] by simp
  also have "\<dots> = Inr x"
    by (simp add: SLIP_END_def SLIP_ESC_def)
  finally show ?thesis .
qed

text \<open>
  C4. Fragmentation equivalence: for every reader state and every way of cutting a byte
  sequence into chunks, feeding the chunks one \<open>feed\<close> call at a time leaves the reader in
  the same state (hence with the same FIFO queue of extracted frames) as feeding the whole
  sequence in one call; feeding one byte at a time is the special case of one-byte chunks.
\<close>

theorem feed_fragmentation:
  "feed_chunks chunks r = feed (concat chunks) r \<and>
   packets (feed_chunks chunks r) = packets (feed (concat chunks) r) \<and>
   feed_chunks (map (\<lambda>b. [b]) data) r = feed data r"
proof -
  have "concat (map (\<lambda>b. [b]) data) = data" by (induction data) simp_all
  then show ?thesis using feed_chunks_concat [of "map (\<lambda>b. [b]) data" r]
    by (simp add: feed_chunks_concat)
qed

text \<open>
  C5. \<open>slip_decode\<close> fails exactly when the input has a malformed escape (an escape byte
  that is last, or followed by a byte other than 0xDC and 0xDD); every failure is a
  \<open>ValueError\<close>; in every other case it succeeds, and its result is the payload whose
  escaped form is the input with the delimiter bytes stripped (delimiters are dropped and
  each escape sequence is resolved to the byte it stands for).
\<close>

theorem slip_decode_fails_iff_malformed:
  "(isl (slip_decode data :: 't error + byte list) \<longleftrightarrow> malformed_escape data) \<and>
   (\<forall>e. slip_decode data = Inl (e :: 't error) \<longrightarrow> is_ValueError e) \<and>
   (\<forall>r. slip_decode data = (Inr r :: 't error + byte list) \<longrightarrow>
        encode_loop r [] = filter (\<lambda>b. b \<noteq> SLIP_END) data)"
proof (intro conjI allI impI)
  show "isl (slip_decode data :: 't error + byte list) \<longleftrightarrow> malformed_escape data"
    by (simp add: slip_decode_def decode_loop_fails)
next
  fix e :: "'t error"
  assume "slip_decode data = Inl e"
  then show "is_ValueError e"
    using decode_loop_ValueError [of data "[]" e] by (simp add: slip_decode_def)
next
  fix r
  assume "slip_decode data = (Inr r :: 't error + byte list)"
  then show "encode_loop r [] = filter (\<lambda>b. b \<noteq> SLIP_END) data"
    using decode_loop_result [of data "[]" r, where ?'t = 't] by (simp add: slip_decode_def)
qed

theorem slip_decode_fails_iff_malformed_witness:
  "(slip_decode [0xC0, 0xDB, 0xDC, 0x01, 0xDB, 0xDD, 0xC0] :: unit error + byte list)
     = Inr [0xC0, 0x01, 0xDB] \<and>
   \<not> malformed_escape [0xC0, 0xDB, 0xDC, 0x01, 0xDB, 0xDD, 0xC0] \<and>
   encode_loop [0xC0, 0x01, 0xDB] [] = [0xDB, 0xDC, 0x01, 0xDB, 0xDD] \<and>
   (slip_decode [0x01, 0xDB, 0x02] :: unit error + byte list) = Inl (InvalidEscape 0x02) \<and>
   malformed_escape [0x01, 0xDB, 0x02] \<and>
   is_ValueError (InvalidEscape 0x02 :: unit error) \<and>
   (slip_decode [0x01, 0xDB] :: unit error + byte list) = Inl IncompleteEscape \<and>
   malformed_escape [0x01, 0xDB]"
proof -
  have a: "(slip_decode [0xC0, 0xDB, 0xDC, 0x01, 0xDB, 0xDD, 0xC0] :: unit error + byte list)
     = Inr [0xC0, 0x01, 0xDB]"
    by (simp add: slip_decode_def SLIP_END_def SLIP_ESC_def SLIP_ESC_END_def SLIP_ESC_ESC_def)
  have b: "(slip_decode [0x01, 0xDB, 0x02] :: unit error + byte list) = Inl (InvalidEscape 0x02)"
    by (simp add: slip_decode_def SLIP_END_def SLIP_ESC_def SLIP_ESC_END_def SLIP_ESC_ESC_def)
  have c: "(slip_decode [0x01, 0xDB] :: unit error + byte list) = Inl IncompleteEscape"
    by (simp add: slip_decode_def SLIP_END_def SLIP_ESC_def SLIP_ESC_END_def SLIP_ESC_ESC_def)
  have f: "filter (\<lambda>b. b \<noteq> SLIP_END) [0xC0, 0xDB, 0xDC, 0x01, 0xDB, 0xDD, 0xC0]
             = [0xDB, 0xDC, 0x01, 0xDB, 0xDD]"
    by (simp add: SLIP_END_def)
  show ?thesis
    using a b c f
      slip_decode_fails_iff_malformed [of "[0xC0, 0xDB, 0xDC, 0x01, 0xDB, 0xDD, 0xC0]", where ?'t = unit]
      slip_decode_fails_iff_malformed [of "[0x01, 0xDB, 0x02]", where ?'t = unit]
      slip_decode_fails_iff_malformed [of "[0x01, 0xDB]", where ?'t = unit]
    by auto
qed

text \<open>
  C6. A frame whose body holds a corrupt escape is discarded silently: feeding it leaves the
  reader exactly where a lone delimiter would have left it (nothing is enqueued for it, no
  error escapes \<open>feed\<close>), and the reader stays usable: a well-formed frame with a non-empty
  payload fed afterwards is decoded and appended to the queue.
\<close>

theorem feed_discards_corrupt_frame:
  assumes "SLIP_END \<notin> set bad" and "malformed_escape bad"
  shows "feed (SLIP_END # bad @ [SLIP_END]) r = feed [SLIP_END] r \<and>
         packets (feed (SLIP_END # bad @ [SLIP_END]) r) = packets (feed [SLIP_END] r) \<and>
         (payload \<noteq> [] \<longrightarrow>
            packets (feed (slip_encode payload) (feed (SLIP_END # bad @ [SLIP_END]) r))
              = packets (feed [SLIP_END] r) @ [payload])"
proof -
  have eq: "feed (SLIP_END # bad @ [SLIP_END]) r = feed [SLIP_END] r"
    using feed_frame_bad [OF assms] .
  have idem: "feed [SLIP_END] (feed [SLIP_END] r) = feed [SLIP_END] r"
    using feed_END_in_packet [of r] by (simp add: feed_byte_def)
  show ?thesis using eq idem feed_frame_good [of payload "feed [SLIP_END] r"] by simp
qed

theorem feed_discards_corrupt_frame_witness:
  "SLIP_END \<notin> set [0x01, 0xDB, 0x02] \<and> malformed_escape [0x01, 0xDB, 0x02] \<and>
   packets (feed (SLIP_END # [0x01, 0xDB, 0x02] @ [SLIP_END]) SlipReader_init) = [] \<and>
   [0x05 :: byte] \<noteq> [] \<and>
   packets (feed (slip_encode [0x05])
              (feed (SLIP_END # [0x01, 0xDB, 0x02] @ [SLIP_END]) SlipReader_init)) = [[0x05]]"
proof -
  have h1: "SLIP_END \<notin> set [0x01, 0xDB, 0x02]"
    by (simp add: SLIP_END_def)
  have h2: "malformed_escape [0x01, 0xDB, 0x02]"
    by (simp add: malformed_Cons SLIP_ESC_def SLIP_ESC_END_def SLIP_ESC_ESC_def)
  have p0: "packets (feed [SLIP_END] SlipReader_init) = []"
    by (simp add: feed_byte_def SlipReader_init_def)
  show ?thesis
    using h1 h2 p0 feed_discards_corrupt_frame [OF h1 h2, of SlipReader_init "[0x05]"]
    by (auto simp del: feed.simps)
qed

text \<open>
  C1. As stated the claim fails: \<open>_next_packet_id\<close> never looks at the pending requests, so
  when the counter stands just before an id that still backs a pending request, that id is
  handed out again (the counterexample below). What holds instead: \<open>_next_packet_id\<close>
  returns the successor of the counter whenever that is below \<open>0xFFFFFFFF\<close>, the id it
  returns always fits in 32 bits and becomes the new counter value, and neither the id
  returned nor the table of pending requests depends on which requests are pending.
\<close>

theorem next_packet_id_does_not_skip:
  "fst (next_packet_id c) < 2 ^ 32 \<and>
   (packet_id c + 1 < 0xFFFFFFFF \<longrightarrow> fst (next_packet_id c) = packet_id c + 1) \<and>
   packet_id (snd (next_packet_id c)) = fst (next_packet_id c) \<and>
   fst (next_packet_id (c\<lparr>response_events := ev\<rparr>)) = fst (next_packet_id c) \<and>
   response_events (snd (next_packet_id c)) = response_events c"
proof -
  have "(packet_id c + 1) mod 0xFFFFFFFF < 0xFFFFFFFF" by simp
  then have "(packet_id c + 1) mod 0xFFFFFFFF < 2 ^ 32" by simp
  then show ?thesis by (simp add: next_packet_id_def Let_def)
qed

theorem next_packet_id_does_not_skip_witness:
  "packet_id (LoRaMeshClient_init (5::nat)) + 1 < 0xFFFFFFFF \<and>
   fst (next_packet_id (LoRaMeshClient_init (5::nat))) = 1"
  using next_packet_id_does_not_skip [of "LoRaMeshClient_init (5::nat)"]
  by (simp add: LoRaMeshClient_init_def)

text \<open>
  The counterexample for C1: the counter stands at 0 and request 1 is still pending (its
  event is registered and not set); the id allocated next is 1, the id of that pending
  request.
\<close>

theorem next_packet_id_skips_pending_counterexample:
  "response_events
     ((LoRaMeshClient_init (5::nat))\<lparr>packet_id := 0, response_events := [1 \<mapsto> False]\<rparr>)
     (fst (next_packet_id
        ((LoRaMeshClient_init (5::nat))\<lparr>packet_id := 0, response_events := [1 \<mapsto> False]\<rparr>)))
   = Some False"
  by (simp add: next_packet_id_def LoRaMeshClient_init_def Let_def)

text \<open>
  C2. On a connected client \<open>_send_command\<close> allocates the next id, writes the frame of the
  command under that id and then waits once, with the timeout given or the default one:
  the calling thread's trace grows by exactly that write and that wait, and the window of
  frames arriving during the wait is consumed. The call fails with \<open>TimeoutError\<close> (naming
  the timeout it waited with) exactly when no frame of the window parses to a reply with
  that id; otherwise it returns the last such reply. Either way no event is registered
  under the id afterwards, and after a timeout no response is stored for it. A frame with
  that \<open>request_id\<close> handled after this point is passed to \<open>_handle_event\<close> like any
  unsolicited frame: it stores no response, sets no event and causes no write or wait, and
  when its payload is not one of the five event kinds the client state is left unchanged
  (the frame is dropped).
\<close>

theorem send_command_timeout:
  fixes c :: "'t client"
  assumes "is_connected c"
  shows "fst (send_command ser parse cmd timeout c)
           = (if replies parse (next_id (packet_id c)) (next_window c) = []
              then Inl (TimeoutError (effective_timeout timeout c))
              else Inr (last (replies parse (next_id (packet_id c)) (next_window c)))) \<and>
         trace (snd (send_command ser parse cmd timeout c))
           = trace c @ [Write (slip_encode (ser (SerialPacket (next_id (packet_id c)) cmd))),
                        Wait (effective_timeout timeout c)] \<and>
         packet_id (snd (send_command ser parse cmd timeout c)) = next_id (packet_id c) \<and>
         inbox (snd (send_command ser parse cmd timeout c)) = tl (inbox c) \<and>
         is_connected (snd (send_command ser parse cmd timeout c)) \<and>
         response_events (snd (send_command ser parse cmd timeout c)) (next_id (packet_id c))
           = None \<and>
         (replies parse (next_id (packet_id c)) (next_window c) = [] \<longrightarrow>
            fst (send_command ser parse cmd timeout c)
              = Inl (TimeoutError (effective_timeout timeout c)) \<and>
            pending_responses (snd (send_command ser parse cmd timeout c)) (next_id (packet_id c))
              = pending_responses c (next_id (packet_id c))) \<and>
         (\<forall>late r. parse late = HasFromDevice r \<and> request_id r = next_id (packet_id c) \<longrightarrow>
            handle_packet parse late (snd (send_command ser parse cmd timeout c))
              = handle_event r (snd (send_command ser parse cmd timeout c)) \<and>
            response_events (handle_packet parse late (snd (send_command ser parse cmd timeout c)))
              = response_events (snd (send_command ser parse cmd timeout c)) \<and>
            pending_responses (handle_packet parse late (snd (send_command ser parse cmd timeout c)))
              = pending_responses (snd (send_command ser parse cmd timeout c)) \<and>
            trace (handle_packet parse late (snd (send_command ser parse cmd timeout c)))
              = trace (snd (send_command ser parse cmd timeout c)) \<and>
            (payload_type r \<notin> Some ` {''message_received'', ''gps_received'',
                 ''neighbor_changed'', ''emergency_received'', ''log''} \<longrightarrow>
               handle_packet parse late (snd (send_command ser parse cmd timeout c))
                 = snd (send_command ser parse cmd timeout c)))"
proof -
  define c' where "c' = snd (send_command ser parse cmd timeout c)"
  note scf = send_command_connected [OF assms, of ser parse cmd timeout, folded c'_def]
  have dereg: "response_events c' (next_id (packet_id c)) = None"
    using scf(7) .
  have late: "handle_packet parse late c' = handle_event r c' \<and>
        response_events (handle_packet parse late c') = response_events c' \<and>
        pending_responses (handle_packet parse late c') = pending_responses c' \<and>
        trace (handle_packet parse late c') = trace c' \<and>
        (payload_type r \<notin> Some ` {''message_received'', ''gps_received'',
             ''neighbor_changed'', ''emergency_received'', ''log''} \<longrightarrow>
           handle_packet parse late c' = c')"
    if "parse late = HasFromDevice r" "request_id r = next_id (packet_id c)" for late r
  proof -
    have "handle_packet parse late c' = handle_event r c'"
      using handle_packet_late [of c' "next_id (packet_id c)" parse late r] dereg that by simp
    then show ?thesis
      using handle_event_reply [of r c'] by (simp add: handle_event_fields)
  qed
  have none: "fst (send_command ser parse cmd timeout c)
              = Inl (TimeoutError (effective_timeout timeout c)) \<and>
            pending_responses c' (next_id (packet_id c)) = pending_responses c (next_id (packet_id c))"
    if "replies parse (next_id (packet_id c)) (next_window c) = []"
    using scf(1,8) that by simp
  show ?thesis
    unfolding c'_def [symmetric]
    using scf(1-4,6) dereg none late by (intro conjI impI allI) blast+
qed

theorem send_command_timeout_witness:
  "is_connected (connected_client [[[7, 0], [9]]]) \<and>
   replies toy_parse (next_id (packet_id (connected_client [[[7, 0], [9]]])))
     (next_window (connected_client [[[7, 0], [9]]])) = [] \<and>
   fst (send_command toy_ser toy_parse (OtherRequest ''get_info'') None
          (connected_client [[[7, 0], [9]]])) = Inl (TimeoutError 5) \<and>
   trace (snd (send_command toy_ser toy_parse (OtherRequest ''get_info'') None
                 (connected_client [[[7, 0], [9]]]))) = [Write [0xC0, 1, 0xC0], Wait 5] \<and>
   response_events (snd (send_command toy_ser toy_parse (OtherRequest ''get_info'') None
                           (connected_client [[[7, 0], [9]]]))) 1 = None \<and>
   toy_parse [1, 0, 42] =
     HasFromDevice \<lparr>request_id = 1, payload_type = Some ''result'', payload_content = [42]\<rparr> \<and>
   handle_packet toy_parse [1, 0, 42]
     (snd (send_command toy_ser toy_parse (OtherRequest ''get_info'') None
             (connected_client [[[7, 0], [9]]])))
   = snd (send_command toy_ser toy_parse (OtherRequest ''get_info'') None
            (connected_client [[[7, 0], [9]]])) \<and>
   is_connected (connected_client [[[7, 0], [1, 0, 42]]]) \<and>
   fst (send_command toy_ser toy_parse (OtherRequest ''get_info'') None
          (connected_client [[[7, 0], [1, 0, 42]]]))
     = Inr \<lparr>request_id = 1, payload_type = Some ''result'', payload_content = [42]\<rparr>"
proof -
  let ?c = "connected_client [[[7, 0], [9]]]"
  let ?d = "connected_client [[[7, 0], [1, 0, 42]]]"
  have h1: "is_connected ?c" "is_connected ?d"
    by (simp_all add: connected_client_def)
  have pid: "next_id (packet_id ?c) = 1" "next_id (packet_id ?d) = 1"
    by (simp_all add: connected_client_def LoRaMeshClient_init_def next_id_def)
  have win: "next_window ?c = [[7, 0], [9]]" "next_window ?d = [[7, 0], [1, 0, 42]]"
    by (simp_all add: next_window_def connected_client_def)
  have rep: "replies toy_parse 1 [[7, 0], [9]] = []"
    "replies toy_parse 1 [[7, 0], [1, 0, 42]]
       = [\<lparr>request_id = 1, payload_type = Some ''result'', payload_content = [42]\<rparr>]"
    by (simp_all add: replies_def reply_to_def toy_parse_def map_filter_simps)
  have h2: "replies toy_parse (next_id (packet_id ?c)) (next_window ?c) = []"
    by (simp only: pid win rep)
  have t: "effective_timeout None ?c = 5" "trace ?c = []"
    by (simp_all add: effective_timeout_def connected_client_def LoRaMeshClient_init_def)
  have frame: "slip_encode (toy_ser (SerialPacket 1 (OtherRequest ''get_info''))) = [0xC0, 1, 0xC0]"
    by (simp add: slip_encode_def toy_ser_def SLIP_END_def SLIP_ESC_def)
  have late: "toy_parse [1, 0, 42] =
     HasFromDevice \<lparr>request_id = 1, payload_type = Some ''result'', payload_content = [42]\<rparr>"
    by (simp add: toy_parse_def)
  have kind: "payload_type \<lparr>request_id = 1, payload_type = Some ''result'', payload_content = [42]\<rparr>
      \<notin> Some ` {''message_received'', ''gps_received'', ''neighbor_changed'',
                   ''emergency_received'', ''log''}"
    by simp
  note th = send_command_timeout [OF h1(1), of toy_ser toy_parse "OtherRequest ''get_info''" None,
      unfolded pid win rep t]
  note th2 = send_command_timeout [OF h1(2), of toy_ser toy_parse "OtherRequest ''get_info''" None,
      unfolded pid win rep]
  have a: "fst (send_command toy_ser toy_parse (OtherRequest ''get_info'') None ?c)
             = Inl (TimeoutError 5)"
    using th by simp
  have tr: "trace (snd (send_command toy_ser toy_parse (OtherRequest ''get_info'') None ?c))
             = [Write [0xC0, 1, 0xC0], Wait 5]"
    using th frame by simp
  have ev: "response_events (snd (send_command toy_ser toy_parse (OtherRequest ''get_info'') None ?c)) 1
             = None"
    using th by blast
  have b: "handle_packet toy_parse [1, 0, 42]
     (snd (send_command toy_ser toy_parse (OtherRequest ''get_info'') None ?c))
   = snd (send_command toy_ser toy_parse (OtherRequest ''get_info'') None ?c)"
    using th late kind by (metis from_device.select_convs(1))
  have ok: "fst (send_command toy_ser toy_parse (OtherRequest ''get_info'') None ?d)
     = Inr \<lparr>request_id = 1, payload_type = Some ''result'', payload_content = [42]\<rparr>"
    using th2 by simp
  show ?thesis using h1 h2 a tr ev late b ok by (intro conjI)
qed

text \<open>
  C7. For a text of at most 180 characters \<open>send_message\<close> makes exactly one call of
  \<open>_send_command\<close>, with a \<open>send_message\<close> request carrying the whole text: on a connected
  client the calling thread writes that one frame and waits once; on a disconnected one the
  call fails with \<open>ConnectionError\<close> and nothing is written. For a longer text and
  \<open>auto_split=False\<close> it fails at once with the \<open>ValueError\<close> that states the length and the
  limit 180, and the client state is untouched (no command, no write, no wait).
\<close>

theorem send_message_single_or_rejected:
  fixes c :: "'t client"
  shows
  "(length txt \<le> 180 \<longrightarrow>
      send_message ser parse txt priority timeout auto_split c =
        (case send_command ser parse (SendMessageRequest '''' txt) timeout c of
           (Inl e, c') \<Rightarrow> (Inl e, c') | (Inr response, c') \<Rightarrow> (Inr '''', c')) \<and>
      (is_connected c \<longrightarrow>
         trace (snd (send_message ser parse txt priority timeout auto_split c)) =
           trace c @ [Write (slip_encode (ser (SerialPacket (next_id (packet_id c))
                                                  (SendMessageRequest '''' txt)))),
                      Wait (effective_timeout timeout c)]) \<and>
      (\<not> is_connected c \<longrightarrow>
         fst (send_message ser parse txt priority timeout auto_split c) = Inl ConnectionError \<and>
         trace (snd (send_message ser parse txt priority timeout auto_split c)) = trace c)) \<and>
   (180 < length txt \<longrightarrow>
      send_message ser parse txt priority timeout False c =
        (Inl (MessageTooLong (length txt) 180), c) \<and>
      is_ValueError (MessageTooLong (length txt) 180 :: 't error))"
proof -
  let ?sc = "send_command ser parse (SendMessageRequest '''' txt) timeout c"
  have snd_case: "snd (case ?sc of (Inl e, c') \<Rightarrow> (Inl e, c')
                      | (Inr response, c') \<Rightarrow> (Inr '''', c')) = snd ?sc"
    by (simp split: prod.splits sum.splits)
  have short: "send_message ser parse txt priority timeout auto_split c =
        (case ?sc of (Inl e, c') \<Rightarrow> (Inl e, c') | (Inr response, c') \<Rightarrow> (Inr '''', c'))"
    if "length txt \<le> 180"
    using that by (simp add: send_message_def MAX_LENGTH_def)
  have conn: "trace (snd (send_message ser parse txt priority timeout auto_split c)) =
           trace c @ [Write (slip_encode (ser (SerialPacket (next_id (packet_id c))
                                                  (SendMessageRequest '''' txt)))),
                      Wait (effective_timeout timeout c)]"
    if "length txt \<le> 180" "is_connected c"
    using send_command_connected(2) [OF that(2), of ser parse "SendMessageRequest '''' txt" timeout]
    by (simp only: short [OF that(1)] snd_case)
  have disc: "fst (send_message ser parse txt priority timeout auto_split c) = Inl ConnectionError \<and>
         trace (snd (send_message ser parse txt priority timeout auto_split c)) = trace c"
    if "length txt \<le> 180" "\<not> is_connected c"
    using send_command_disconnected [OF that(2), of ser parse "SendMessageRequest '''' txt" timeout]
    by (simp add: short [OF that(1)])
  have long: "send_message ser parse txt priority timeout False c =
        (Inl (MessageTooLong (length txt) 180), c)"
    if "180 < length txt"
    using that by (simp add: send_message_def MAX_LENGTH_def)
  have ve: "is_ValueError (MessageTooLong (length txt) 180 :: 't error)"
    by (simp add: is_ValueError_def)
  show ?thesis
  proof (intro conjI impI)
    assume le: "length txt \<le> 180"
    show "send_message ser parse txt priority timeout auto_split c =
        (case ?sc of (Inl e, c') \<Rightarrow> (Inl e, c') | (Inr response, c') \<Rightarrow> (Inr '''', c'))"
      using short [OF le] .
  next
    assume "length txt \<le> 180" "is_connected c"
    then show "trace (snd (send_message ser parse txt priority timeout auto_split c)) =
           trace c @ [Write (slip_encode (ser (SerialPacket (next_id (packet_id c))
                                                  (SendMessageRequest '''' txt)))),
                      Wait (effective_timeout timeout c)]"
      by (rule conn)
  next
    assume "length txt \<le> 180" "\<not> is_connected c"
    then show "fst (send_message ser parse txt priority timeout auto_split c) = Inl ConnectionError"
      using disc by simp
  next
    assume "length txt \<le> 180" "\<not> is_connected c"
    then show "trace (snd (send_message ser parse txt priority timeout auto_split c)) = trace c"
      using disc by simp
  next
    assume "180 < length txt"
    then show "send_message ser parse txt priority timeout False c =
        (Inl (MessageTooLong (length txt) 180), c)"
      by (rule long)
  next
    show "is_ValueError (MessageTooLong (length txt) 180 :: 't error)"
      by (rule ve)
  qed
qed

theorem send_message_single_or_rejected_witness:
  "length ''hi'' \<le> 180 \<and> is_connected (connected_client [[[1, 0]]]) \<and>
   trace (snd (send_message toy_ser toy_parse ''hi'' None None False (connected_client [[[1, 0]]])))
     = [Write [0xC0, 1, 0x68, 0x69, 0xC0], Wait 5] \<and>
   \<not> is_connected (LoRaMeshClient_init (5::nat)) \<and>
   fst (send_message toy_ser toy_parse ''hi'' None None False (LoRaMeshClient_init (5::nat)))
     = Inl ConnectionError \<and>
   180 < length (replicate 181 CHR ''a'') \<and>
   send_message toy_ser toy_parse (replicate 181 CHR ''a'') None None False
       (connected_client [[[1, 0]]])
     = (Inl (MessageTooLong 181 180), connected_client [[[1, 0]]])"
proof -
  let ?c = "connected_client [[[1, 0]]]"
  have h1: "length ''hi'' \<le> 180" by simp
  have h2: "is_connected ?c" by (simp add: connected_client_def)
  have h3: "\<not> is_connected (LoRaMeshClient_init (5::nat))"
    by (simp add: LoRaMeshClient_init_def)
  have h4: "180 < length (replicate 181 CHR ''a'')" by simp
  have frame: "slip_encode (toy_ser (SerialPacket (next_id (packet_id ?c))
                  (SendMessageRequest '''' ''hi''))) = [0xC0, 1, 0x68, 0x69, 0xC0]"
    by (simp add: slip_encode_def toy_ser_def next_id_def connected_client_def
        LoRaMeshClient_init_def SLIP_END_def SLIP_ESC_def)
  have t: "effective_timeout None ?c = 5" "trace ?c = []"
    by (simp_all add: effective_timeout_def connected_client_def LoRaMeshClient_init_def)
  note th1 = send_message_single_or_rejected [of "''hi''" toy_ser toy_parse None None False ?c]
  note th2 = send_message_single_or_rejected
    [of "''hi''" toy_ser toy_parse None None False "LoRaMeshClient_init (5::nat)"]
  note th3 = send_message_single_or_rejected
    [of "replicate 181 CHR ''a''" toy_ser toy_parse None None False ?c]
  have "trace (snd (send_message toy_ser toy_parse ''hi'' None None False ?c))
     = trace ?c @ [Write (slip_encode (toy_ser (SerialPacket (next_id (packet_id ?c))
                      (SendMessageRequest '''' ''hi'')))), Wait (effective_timeout None ?c)]"
    using th1 h1 h2 by blast
  then have a: "trace (snd (send_message toy_ser toy_parse ''hi'' None None False ?c))
     = [Write [0xC0, 1, 0x68, 0x69, 0xC0], Wait 5]"
    by (simp only: frame t append_Nil)
  have b: "fst (send_message toy_ser toy_parse ''hi'' None None False (LoRaMeshClient_init (5::nat)))
     = Inl ConnectionError"
    using th2 h1 h3 by blast
  have c: "send_message toy_ser toy_parse (replicate 181 CHR ''a'') None None False ?c
     = (Inl (MessageTooLong 181 180), ?c)"
    using th3 h4 by simp
  show ?thesis using h1 h2 h3 h4 a b c by (intro conjI)
qed

text \<open>
  C8. For a text of more than 180 characters and \<open>auto_split=True\<close>, \<open>send_message\<close> runs
  \<open>_send_split_message\<close>. The text is cut into \<open>ceil(len/160)\<close> consecutive chunks which
  together are the text, each but the last of 160 characters. On a connected client the
  calling thread transmits, for some \<open>k\<close> between 1 and the number \<open>N\<close> of chunks, exactly the
  parts \<open>1..k\<close>, part \<open>i\<close> as the command with text \<open>"[i/N] " + chunk\<close>, in order, each followed
  by its wait, with a pause of 300 ms between consecutive sends and none after the last;
  every part before the \<open>k\<close>-th was answered; and either the \<open>k\<close>-th was answered too, then
  \<open>k = N\<close> and the call returns the empty string, or it was not, then the call stops there
  and raises that send's \<open>TimeoutError\<close> without sending the remaining chunks. On a
  disconnected client the first send fails with \<open>ConnectionError\<close>, which is propagated, and
  nothing is written.
\<close>

theorem send_message_chunked:
  fixes c :: "'t client"
  assumes "180 < length txt"
  shows
   "send_message ser parse txt priority timeout True c
      = send_split_message ser parse txt priority timeout c \<and>
    concat (map (\<lambda>i. spec_chunk txt (Suc i)) [0..<spec_total txt]) = txt \<and>
    (\<forall>i. 1 \<le> i \<and> i < spec_total txt \<longrightarrow> length (spec_chunk txt i) = 160) \<and>
    (is_connected c \<longrightarrow>
       (\<exists>k. 1 \<le> k \<and> k \<le> spec_total txt \<and>
          trace (snd (send_message ser parse txt priority timeout True c))
            = trace c @ spec_sends ser (effective_timeout timeout c) txt 0 k (packet_id c) \<and>
          (\<forall>j. 1 \<le> j \<and> j < k \<longrightarrow> got_reply parse (packet_id c) (inbox c) j) \<and>
          (if got_reply parse (packet_id c) (inbox c) k
           then k = spec_total txt \<and>
                fst (send_message ser parse txt priority timeout True c) = Inr []
           else fst (send_message ser parse txt priority timeout True c)
                  = Inl (TimeoutError (effective_timeout timeout c))))) \<and>
    (\<not> is_connected c \<longrightarrow>
       fst (send_message ser parse txt priority timeout True c) = Inl ConnectionError \<and>
       trace (snd (send_message ser parse txt priority timeout True c)) = trace c)"
proof -
  let ?R = "send_parts ser parse timeout (spec_total txt)
             (map (\<lambda>j. (j, take 160 (drop (160 * j) txt))) [0..<spec_total txt]) c"
  have sm: "send_message ser parse txt priority timeout True c
      = send_split_message ser parse txt priority timeout c"
    using assms by (simp add: send_message_def MAX_LENGTH_def)
  have pos: "0 < spec_total txt"
    using assms unfolding spec_total_def by arith
  have fst_case: "fst (send_split_message ser parse txt priority timeout c) =
      (case fst ?R of Inl e \<Rightarrow> Inl e | Inr u \<Rightarrow> Inr [])"
    by (simp add: send_split_message_parts split: prod.splits sum.splits)
  have snd_case: "snd (send_split_message ser parse txt priority timeout c) = snd ?R"
    by (simp add: send_split_message_parts split: prod.splits sum.splits)
  have conn: "\<exists>k. 1 \<le> k \<and> k \<le> spec_total txt \<and>
          trace (snd (send_message ser parse txt priority timeout True c))
            = trace c @ spec_sends ser (effective_timeout timeout c) txt 0 k (packet_id c) \<and>
          (\<forall>j. 1 \<le> j \<and> j < k \<longrightarrow> got_reply parse (packet_id c) (inbox c) j) \<and>
          (if got_reply parse (packet_id c) (inbox c) k
           then k = spec_total txt \<and>
                fst (send_message ser parse txt priority timeout True c) = Inr []
           else fst (send_message ser parse txt priority timeout True c)
                  = Inl (TimeoutError (effective_timeout timeout c)))"
    if "is_connected c"
  proof -
    from send_parts_run [OF that, of "txt" 0 ser parse timeout]
    obtain m where m: "m \<le> spec_total txt" "1 \<le> m"
      "trace (snd ?R) = trace c @ spec_sends ser (effective_timeout timeout c) txt 0 m (packet_id c)"
      "\<forall>j. 1 \<le> j \<and> j < m \<longrightarrow> got_reply parse (packet_id c) (inbox c) j"
      "if m = 0 \<or> got_reply parse (packet_id c) (inbox c) m
       then m = spec_total txt - 0 \<and> fst ?R = Inr ()
       else fst ?R = Inl (TimeoutError (effective_timeout timeout c))"
      using pos by auto
    have "if got_reply parse (packet_id c) (inbox c) m
           then m = spec_total txt \<and>
                fst (send_message ser parse txt priority timeout True c) = Inr []
           else fst (send_message ser parse txt priority timeout True c)
                  = Inl (TimeoutError (effective_timeout timeout c))"
      using m(2,5) by (auto simp: sm fst_case split: if_splits)
    then show ?thesis
      using m(1-4) by (intro exI [of _ m]) (simp add: sm snd_case)
  qed
  have disc: "fst (send_message ser parse txt priority timeout True c) = Inl ConnectionError \<and>
       trace (snd (send_message ser parse txt priority timeout True c)) = trace c"
    if "\<not> is_connected c"
    using send_split_message_disconnected [OF pos that, of ser parse priority timeout]
    by (simp add: sm)
  have len: "\<forall>i. 1 \<le> i \<and> i < spec_total txt \<longrightarrow> length (spec_chunk txt i) = 160"
    using spec_chunk_length by blast
  show ?thesis
    using sm spec_chunks_cover [of "txt"] len conn disc by (intro conjI impI) auto
qed

theorem send_message_chunked_witness:
  "180 < length (replicate 181 CHR ''a'') \<and>
   is_connected (connected_client [[[1, 0]], [[2, 0]]]) \<and>
   spec_total (replicate 181 CHR ''a'') = 2 \<and>
   fst (send_message toy_ser toy_parse (replicate 181 CHR ''a'') None None True
          (connected_client [[[1, 0]], [[2, 0]]])) = Inr [] \<and>
   trace (snd (send_message toy_ser toy_parse (replicate 181 CHR ''a'') None None True
                 (connected_client [[[1, 0]], [[2, 0]]])))
     = [Write (slip_encode (toy_ser (SerialPacket 1
                 (SendMessageRequest [] (''[1/2] '' @ replicate 160 CHR ''a''))))),
        Wait 5, Sleep 300,
        Write (slip_encode (toy_ser (SerialPacket 2
                 (SendMessageRequest [] (''[2/2] '' @ replicate 21 CHR ''a''))))),
        Wait 5] \<and>
   fst (send_message toy_ser toy_parse (replicate 181 CHR ''a'') None None True
          (connected_client [[], [[2, 0]]])) = Inl (TimeoutError 5) \<and>
   trace (snd (send_message toy_ser toy_parse (replicate 181 CHR ''a'') None None True
                 (connected_client [[], [[2, 0]]])))
     = [Write (slip_encode (toy_ser (SerialPacket 1
                 (SendMessageRequest [] (''[1/2] '' @ replicate 160 CHR ''a''))))),
        Wait 5]"
proof -
  let ?txt = "replicate 181 CHR ''a''"
  let ?c = "connected_client [[[1, 0]], [[2, 0]]]"
  let ?d = "connected_client [[], [[2, 0]]]"
  have h1: "180 < length ?txt" by simp
  have h2: "is_connected ?c" "is_connected ?d" by (simp_all add: connected_client_def)
  have N: "spec_total ?txt = 2" by (simp add: spec_total_def)
  have st: "packet_id ?c = 0" "inbox ?c = [[[1, 0]], [[2, 0]]]" "trace ?c = []"
    "effective_timeout None ?c = 5"
    "packet_id ?d = 0" "inbox ?d = [[], [[2, 0]]]" "trace ?d = []"
    "effective_timeout None ?d = 5"
    by (simp_all add: connected_client_def LoRaMeshClient_init_def effective_timeout_def)
  have ids: "(next_id ^^ 1) 0 = 1" "(next_id ^^ 2) 0 = 2"
    by (simp_all add: next_id_def numeral_2_eq_2)
  have g: "got_reply toy_parse 0 [[[1, 0]], [[2, 0]]] 1"
    "got_reply toy_parse 0 [[[1, 0]], [[2, 0]]] 2"
    "\<not> got_reply toy_parse 0 [[], [[2, 0]]] 1"
    unfolding got_reply_def ids
    by (simp_all add: replies_def reply_to_def toy_parse_def map_filter_simps)
  have p1: "spec_part ?txt (Suc 0) = ''[1/2] '' @ replicate 160 CHR ''a''"
    by (simp add: spec_part_def spec_chunk_def N str_nat_digits)
  have p2: "spec_part ?txt (Suc (Suc 0)) = ''[2/2] '' @ replicate 21 CHR ''a''"
    using str_nat_digits(2) by (simp add: spec_part_def spec_chunk_def N numeral_2_eq_2)
  have nid: "next_id 0 = 1" "next_id 1 = 2" by (simp_all add: next_id_def)
  have s2: "spec_sends toy_ser (5::nat) ?txt 0 2 0 =
      [Write (slip_encode (toy_ser (SerialPacket 1
                 (SendMessageRequest [] (''[1/2] '' @ replicate 160 CHR ''a''))))),
        Wait 5, Sleep 300,
        Write (slip_encode (toy_ser (SerialPacket 2
                 (SendMessageRequest [] (''[2/2] '' @ replicate 21 CHR ''a''))))),
        Wait 5]"
    by (simp only: numeral_2_eq_2 spec_sends.simps p1 p2 nid) simp
  have s1: "spec_sends toy_ser (5::nat) ?txt 0 1 0 =
      [Write (slip_encode (toy_ser (SerialPacket 1
                 (SendMessageRequest [] (''[1/2] '' @ replicate 160 CHR ''a''))))),
        Wait 5]"
    by (simp only: One_nat_def spec_sends.simps p1 nid) simp
  note th = send_message_chunked [OF h1, of toy_ser toy_parse None None]
  from th [of ?c] h2(1)
  obtain k where k: "1 \<le> k" "k \<le> 2"
    "trace (snd (send_message toy_ser toy_parse ?txt None None True ?c))
       = spec_sends toy_ser 5 ?txt 0 k 0"
    "if got_reply toy_parse 0 [[[1, 0]], [[2, 0]]] k
     then k = 2 \<and> fst (send_message toy_ser toy_parse ?txt None None True ?c) = Inr []
     else fst (send_message toy_ser toy_parse ?txt None None True ?c) = Inl (TimeoutError 5)"
    unfolding st N by auto
  have "k = 1 \<or> k = 2" using k(1,2) by auto
  then have k2: "k = 2" using k(4) g(1) by auto
  have a: "fst (send_message toy_ser toy_parse ?txt None None True ?c) = Inr []"
    using k(4) k2 g(2) by simp
  have b: "trace (snd (send_message toy_ser toy_parse ?txt None None True ?c))
       = spec_sends toy_ser 5 ?txt 0 2 0"
    using k(3) k2 by simp
  from th [of ?d] h2(2)
  obtain m where m: "1 \<le> m" "m \<le> 2"
    "trace (snd (send_message toy_ser toy_parse ?txt None None True ?d))
       = spec_sends toy_ser 5 ?txt 0 m 0"
    "\<forall>j. 1 \<le> j \<and> j < m \<longrightarrow> got_reply toy_parse 0 [[], [[2, 0]]] j"
    "if got_reply toy_parse 0 [[], [[2, 0]]] m
     then m = 2 \<and> fst (send_message toy_ser toy_parse ?txt None None True ?d) = Inr []
     else fst (send_message toy_ser toy_parse ?txt None None True ?d) = Inl (TimeoutError 5)"
    unfolding st N by auto
  have "m = 1 \<or> m = 2" using m(1,2) by auto
  then have m1: "m = 1"
  proof
    assume "m = 2"
    then have "got_reply toy_parse 0 [[], [[2, 0]]] 1" using m(4) by simp
    then show ?thesis using g(3) by simp
  qed
  have c: "fst (send_message toy_ser toy_parse ?txt None None True ?d) = Inl (TimeoutError 5)"
    using m(5) m1 g(3) by simp
  have d: "trace (snd (send_message toy_ser toy_parse ?txt None None True ?d))
       = spec_sends toy_ser 5 ?txt 0 1 0"
    using m(3) m1 by simp
  show ?thesis
    using h1 h2(1) N a c by (simp only: b d s1 s2)
qed

text \<open>
  C9. \<open>broadcast(text, t)\<close> passes \<open>t\<close> in the position of \<open>priority\<close>; \<open>priority\<close> is used
  neither by \<open>send_message\<close> nor by \<open>_send_split_message\<close>, so the call does exactly what
  \<open>send_message(text)\<close> does with its default timeout, and two calls with different
  timeouts behave alike.
\<close>

theorem broadcast_ignores_timeout:
  "broadcast ser parse txt t c = send_message ser parse txt t None False c \<and>
   broadcast ser parse txt t c = send_message ser parse txt None None False c \<and>
   broadcast ser parse txt t c = broadcast ser parse txt t' c"
  by (simp add: broadcast_def send_message_def send_split_message_def)

text \<open>
  C10. The packet-id counter advances by \<open>(id + 1) mod 0xFFFFFFFF\<close>, that is modulo
  \<open>2^32 - 1\<close> and not \<open>2^32\<close>: \<open>_next_packet_id\<close> stores and returns that value; the first id
  after construction is 1; whatever the counter holds, every id allocated is at most
  \<open>0xFFFFFFFE\<close>, so \<open>0xFFFFFFFF\<close> is never allocated; from construction the \<open>k\<close>-th id is
  \<open>k mod 0xFFFFFFFF\<close>, and the first \<open>0xFFFFFFFF\<close> allocations use each value of
  \<open>0..0xFFFFFFFE\<close>.
\<close>

theorem packet_id_counter:
  "fst (next_packet_id c) = (packet_id c + 1) mod (2 ^ 32 - 1) \<and>
   packet_id (snd (next_packet_id c)) = fst (next_packet_id c) \<and>
   fst (next_packet_id (LoRaMeshClient_init t)) = 1 \<and>
   (\<forall>p \<in> set (fst (allocate_ids n c)). p \<le> 0xFFFFFFFE) \<and>
   0xFFFFFFFF \<notin> set (fst (allocate_ids n c)) \<and>
   fst (allocate_ids n (LoRaMeshClient_init t)) = map (\<lambda>k. Suc k mod 0xFFFFFFFF) [0..<n] \<and>
   set (fst (allocate_ids 0xFFFFFFFF (LoRaMeshClient_init t))) = {0..0xFFFFFFFE}"
proof -
  have bound: "p \<le> 0xFFFFFFFE" if "p \<in> set (fst (allocate_ids n c))" for p
  proof -
    from that obtain k where "p = (packet_id c + Suc k) mod 0xFFFFFFFF"
      by (auto simp: allocate_ids_from)
    moreover have "(packet_id c + Suc k) mod 0xFFFFFFFF < 0xFFFFFFFF" by simp
    ultimately show ?thesis by simp
  qed
  have never: "0xFFFFFFFF \<notin> set (fst (allocate_ids n c))"
    using bound [of "0xFFFFFFFF"] by auto
  have init: "fst (allocate_ids m (LoRaMeshClient_init t)) = map (\<lambda>k. Suc k mod 0xFFFFFFFF) [0..<m]"
    for m
    by (simp add: allocate_ids_from LoRaMeshClient_init_def)
  have "set (fst (allocate_ids 0xFFFFFFFF (LoRaMeshClient_init t)))
          = (\<lambda>k. Suc k mod 4294967295) ` {0..<4294967295}"
    by (simp only: init set_map set_upt)
  also have "\<dots> = {0..0xFFFFFFFE}"
    using ids_image by (simp add: atLeastLessThanSuc_atLeastAtMost [symmetric] del: atLeastLessThanSuc_atLeastAtMost)
  finally have all: "set (fst (allocate_ids 0xFFFFFFFF (LoRaMeshClient_init t))) = {0..0xFFFFFFFE}" .
  have first: "fst (next_packet_id (LoRaMeshClient_init t)) = 1"
    by (simp add: next_packet_id_def LoRaMeshClient_init_def Let_def)
  have eq: "fst (next_packet_id c) = (packet_id c + 1) mod (2 ^ 32 - 1)"
    "packet_id (snd (next_packet_id c)) = fst (next_packet_id c)"
    by (simp_all add: next_packet_id_def Let_def)
  show ?thesis using eq first bound never init all by blast
qed

theorem packet_id_counter_witness:
  "fst (allocate_ids 3 ((LoRaMeshClient_init (5::nat))\<lparr>packet_id := 0xFFFFFFFD\<rparr>)) = [0xFFFFFFFE, 0, 1] \<and>
   0xFFFFFFFF \<notin> set (fst (allocate_ids 3 ((LoRaMeshClient_init (5::nat))\<lparr>packet_id := 0xFFFFFFFD\<rparr>))) \<and>
   fst (next_packet_id ((LoRaMeshClient_init (5::nat))\<lparr>packet_id := 0xFFFFFFFD\<rparr>)) = 0xFFFFFFFE \<and>
   fst (next_packet_id (LoRaMeshClient_init (5::nat))) = 1"
proof -
  have ids: "fst (allocate_ids 3 ((LoRaMeshClient_init (5::nat))\<lparr>packet_id := 0xFFFFFFFD\<rparr>))
               = [0xFFFFFFFE, 0, 1]"
    by (simp add: numeral_3_eq_3 next_packet_id_def Let_def)
  show ?thesis
    using ids packet_id_counter [where c = "(LoRaMeshClient_init (5::nat))\<lparr>packet_id := 0xFFFFFFFD\<rparr>"
        and t = "5::nat" and n = 3]
    by simp
qed

end
